theory Spec2Isabelle
  imports Complex_Main "HOL-Library.Multiset"
begin

section \<open>JavaScript numbers and arrays\<close>

text \<open>
  The dashboard's figures are JavaScript numbers. A finite double is embedded in the reals
  and \<open>NaN\<close> is a value of its own; the code below only copies, compares and subtracts such
  numbers (and looks at the sign of the difference), which is exact on finite doubles.
  The infinities, which a backend that serialises finite doubles never sends, and the sign
  of zero are left out.
\<close>

datatype number = NaN | Num real

text \<open>\<open>a > b\<close>, \<open>a <= b\<close> and \<open>a - b\<close>: every comparison with \<open>NaN\<close> is false,
  every difference with \<open>NaN\<close> is \<open>NaN\<close>.\<close>

fun num_gt :: "number \<Rightarrow> number \<Rightarrow> bool" where
  "num_gt (Num x) (Num y) = (x > y)"
| "num_gt _ _ = False"

fun num_le :: "number \<Rightarrow> number \<Rightarrow> bool" where
  "num_le (Num x) (Num y) = (x \<le> y)"
| "num_le _ _ = False"

fun num_minus :: "number \<Rightarrow> number \<Rightarrow> number" where
  "num_minus (Num x) (Num y) = Num (x - y)"
| "num_minus _ _ = NaN"

text \<open>Truthiness of a number in a condition: \<open>0\<close> and \<open>NaN\<close> are falsy.\<close>

fun truthy :: "number \<Rightarrow> bool" where
  "truthy (Num x) = (x \<noteq> 0)"
| "truthy NaN = False"

text \<open>
  \<open>Array.prototype.sort(comparefn)\<close> on an array without holes: a stable sort in which
  \<open>b\<close> goes before \<open>a\<close> exactly when \<open>comparefn(a, b) > 0\<close> (a result of \<open>0\<close> or \<open>NaN\<close>
  keeps the two in their order). It is written as the stable insertion sort; for a
  comparator that is not consistent (one that meets \<open>NaN\<close>) the language leaves the
  order to the engine, and only the fact that the result is a rearrangement is used then.
\<close>

fun insert_cmp :: "('a \<Rightarrow> 'a \<Rightarrow> number) \<Rightarrow> 'a \<Rightarrow> 'a list \<Rightarrow> 'a list" where
  "insert_cmp comparefn a [] = [a]"
| "insert_cmp comparefn a (b # bs) =
     (if num_gt (comparefn a b) (Num 0) then b # insert_cmp comparefn a bs else a # b # bs)"

definition array_sort :: "('a \<Rightarrow> 'a \<Rightarrow> number) \<Rightarrow> 'a list \<Rightarrow> 'a list" where
  "array_sort comparefn xs = foldr (insert_cmp comparefn) xs []"

text \<open>
  \<open>Array.prototype.slice(start, stop)\<close> with integer arguments: a negative argument counts
  from the end of the array, both ends are clamped to the array, and an empty range gives
  the empty array.
\<close>

definition array_slice :: "'a list \<Rightarrow> int \<Rightarrow> int \<Rightarrow> 'a list" where
  "array_slice xs start stop =
     (let len = int (length xs);
          k = (if start < 0 then max (len + start) 0 else min start len);
          final = (if stop < 0 then max (len + stop) 0 else min stop len)
      in take (nat (final - k)) (drop (nat k) xs))"

section \<open>Box-plot statistics\<close>

text \<open>
  \<open>computeBoxStats\<close>: the empty array gives five \<open>NaN\<close>; otherwise a copy is sorted with
  the comparator \<open>(a, b) => a - b\<close> and read at \<open>0\<close>, \<open>Math.floor(length * 0.25)\<close>,
  \<open>Math.floor(length * 0.5)\<close>, \<open>Math.floor(length * 0.75)\<close> and \<open>length - 1\<close>. The products
  are exact in a double for every array length. The reads are inside the array
  (lemma \<open>box_indices_in_range\<close>), so \<open>!\<close> is never used out of range.
\<close>

definition floor_mul :: "nat \<Rightarrow> real \<Rightarrow> nat" where
  "floor_mul n q = nat \<lfloor>real n * q\<rfloor>"

definition computeBoxStats :: "number list \<Rightarrow> number list" where
  "computeBoxStats arr =
     (if length arr = 0 then [NaN, NaN, NaN, NaN, NaN]
      else let sorted = array_sort (\<lambda>a b. num_minus a b) arr in
        [sorted ! 0,
         sorted ! floor_mul (length sorted) 0.25,
         sorted ! floor_mul (length sorted) 0.5,
         sorted ! floor_mul (length sorted) 0.75,
         sorted ! (length sorted - 1)])"

section \<open>Runtime primitives\<close>

text \<open>
  Four primitives of the JavaScript runtime are parameters of the model, so that nothing
  proved below depends on what they compute: \<open>String.prototype.toLowerCase\<close>,
  \<open>String.prototype.localeCompare\<close> (which follows the browser's locale), the double
  product \<open>x * y\<close> (which rounds) and \<open>Math.round\<close>.
\<close>

record runtime =
  toLowerCase :: "string \<Rightarrow> string"
  localeCompare :: "string \<Rightarrow> string \<Rightarrow> number"
  num_times :: "number \<Rightarrow> number \<Rightarrow> number"
  Math_round :: "number \<Rightarrow> number"

text \<open>\<open>s.includes(t)\<close>: \<open>t\<close> occurs in \<open>s\<close> as a contiguous run; the empty \<open>t\<close> always does.\<close>

fun string_includes :: "string \<Rightarrow> string \<Rightarrow> bool" where
  "string_includes [] t = (t = [])"
| "string_includes (c # cs) t = (take (length t) (c # cs) = t \<or> string_includes cs t)"

text \<open>\<open>x ?? d\<close> and \<open>String(x)\<close> for a string that may be \<open>undefined\<close>.\<close>

fun nullish :: "'a option \<Rightarrow> 'a \<Rightarrow> 'a" where
  "nullish None d = d"
| "nullish (Some v) d = v"

fun String_of :: "string option \<Rightarrow> string" where
  "String_of None = ''undefined''"
| "String_of (Some s) = s"

section \<open>Backend responses\<close>

text \<open>
  The interfaces \<open>WorkloadGroup\<close> (whose \<open>_id\<close> and \<open>name\<close> are \<open>wg_id\<close> and \<open>wg_name\<close> here),
  \<open>GroupStats\<close> (whose \<open>cpu\<close> and \<open>memory\<close> are \<open>gs_cpu\<close> and \<open>gs_memory\<close>) and \<open>NodeStats\<close>
  (the part the code reads: \<open>workload_groups\<close>, whose entries have the shape of a
  \<open>GroupStats\<close> without counters). An optional property is an \<open>option\<close>. Counters are
  integers, on which the double sum is exact below \<open>2^53\<close>.
\<close>

record ResourceLimits =
  cpu :: number
  memory :: number

record WorkloadGroup =
  wg_id :: string
  wg_name :: string
  resource_limits :: "ResourceLimits option"

record Usage =
  current_usage :: "number option"

record GroupStats =
  total_completions :: "int option"
  total_rejections :: "int option"
  total_cancellations :: "int option"
  gs_cpu :: "Usage option"
  gs_memory :: "Usage option"

record NodeStats =
  workload_groups :: "(string \<rightharpoonup> GroupStats) option"

text \<open>
  A request either throws or returns a body. \<open>backend\<close> holds what the backend answers
  during one refresh cycle: to the request of \<open>fetchWorkloadGroupNameMap\<close>, to the one of
  \<open>fetchWorkloadGroupsForNode\<close> (the entries of \<open>res.body[nodeId]?.workload_groups ?? {}\<close>
  in the order of \<open>Object.entries\<close>), to the one of \<open>fetchWorkloadGroupsWithLimits\<close>, and to
  the detail request for each group (the entries of the body in the order of \<open>for ... in\<close>).
\<close>

datatype error = NetworkFailure | TypeError

record backend =
  nameMapResponse :: "error + WorkloadGroup list option"
  nodeStatsResponse :: "string \<Rightarrow> error + (string \<times> GroupStats) list"
  limitsResponse :: "error + WorkloadGroup list option"
  statsResponse :: "string \<Rightarrow> error + (string \<times> NodeStats) list"

section \<open>Rows and view state\<close>

text \<open>
  \<open>WorkloadGroupData\<close> extends the record of the two limits, which is the value type of the
  map that \<open>fetchWorkloadGroupsWithLimits\<close> returns; \<open>cpuLimit\<close> and \<open>memLimit\<close> read both.
  \<open>name\<close> is \<open>undefined\<close> for a group the name map does not know.
\<close>

record Limits =
  cpuLimit :: number
  memLimit :: number

record WorkloadGroupData = Limits +
  name :: "string option"
  cpuUsage :: number
  memoryUsage :: number
  totalCompletions :: int
  totalRejections :: int
  totalCancellations :: int
  topQueriesLink :: string
  cpuStats :: "number list"
  memStats :: "number list"
  groupId :: string

datatype SortDirection = ASC | DESC

text \<open>The sort field is one of the table's sortable columns.\<close>

datatype SortField =
  By_name | By_cpuUsage | By_memoryUsage | By_totalCompletions | By_totalRejections
  | By_totalCancellations

record view =
  searchQuery :: string
  sortField :: SortField
  sortDirection :: SortDirection
  pageIndex :: int
  pageSize :: int

text \<open>The summary panel; its three sums carry the suffix \<open>Sum\<close> here.\<close>

record SummaryStats =
  totalGroups :: nat
  totalCompletionsSum :: int
  totalRejectionsSum :: int
  totalCancellationsSum :: int
  groupsExceedingLimits :: nat

record cycle_result =
  data :: "WorkloadGroupData list"
  summaryStats :: SummaryStats

section \<open>The refresh cycle\<close>

text \<open>\<open>fetchWorkloadGroupNameMap\<close>: a failed request throws; a later group of the same id
  overwrites an earlier one.\<close>

definition fetchWorkloadGroupNameMap :: "backend \<Rightarrow> error + (string \<rightharpoonup> string)" where
  "fetchWorkloadGroupNameMap be =
     (case nameMapResponse be of
        Inl err \<Rightarrow> Inl err
      | Inr body \<Rightarrow>
          Inr (foldl (\<lambda>m group. m(wg_id group \<mapsto> wg_name group)) Map.empty (nullish body [])))"

text \<open>\<open>fetchWorkloadGroupsWithLimits\<close>: a limit is converted when it is truthy and is \<open>NaN\<close>
  otherwise; a failed request is caught and gives the empty map.\<close>

definition limitOf :: "runtime \<Rightarrow> number option \<Rightarrow> number" where
  "limitOf rt v =
     (case v of
        None \<Rightarrow> NaN
      | Some x \<Rightarrow> if truthy x then Math_round rt (num_times rt x (Num 100)) else NaN)"

definition fetchWorkloadGroupsWithLimits :: "runtime \<Rightarrow> backend \<Rightarrow> (string \<rightharpoonup> Limits)" where
  "fetchWorkloadGroupsWithLimits rt be =
     (case limitsResponse be of
        Inl err \<Rightarrow> Map.empty
      | Inr body \<Rightarrow>
          foldl (\<lambda>acc group.
                   acc(wg_id group \<mapsto>
                     \<lparr>cpuLimit = limitOf rt (map_option cpu (resource_limits group)),
                      memLimit = limitOf rt (map_option memory (resource_limits group))\<rparr>))
            Map.empty (nullish body []))"

text \<open>The body of the loop over \<open>Object.entries(workloadGroups)\<close>: the row pushed for one
  group, with the defaults \<open>cpuLimit = 100\<close> and \<open>memLimit = 100\<close> of the destructuring.\<close>

definition usagePct :: "runtime \<Rightarrow> Usage option \<Rightarrow> number" where
  "usagePct rt u =
     Math_round rt (num_times rt (nullish (Option.bind u current_usage) (Num 0)) (Num 100))"

definition rawDataRow ::
  "runtime \<Rightarrow> (string \<rightharpoonup> string) \<Rightarrow> (string \<rightharpoonup> Limits) \<Rightarrow> string \<times> GroupStats \<Rightarrow> WorkloadGroupData"
where
  "rawDataRow rt idToName groupIdToLimits entry =
     (let gid = fst entry; groupStats = snd entry;
          limits = (case groupIdToLimits gid of
                      None \<Rightarrow> \<lparr>cpuLimit = Num 100, memLimit = Num 100\<rparr>
                    | Some l \<Rightarrow> l)
      in \<lparr>cpuLimit = cpuLimit limits,
          memLimit = memLimit limits,
          name = (if gid = ''DEFAULT_WORKLOAD_GROUP'' then Some gid else idToName gid),
          cpuUsage = usagePct rt (gs_cpu groupStats),
          memoryUsage = usagePct rt (gs_memory groupStats),
          totalCompletions = nullish (total_completions groupStats) 0,
          totalRejections = nullish (total_rejections groupStats) 0,
          totalCancellations = nullish (total_cancellations groupStats) 0,
          topQueriesLink = '''',
          cpuStats = [],
          memStats = [],
          groupId = gid\<rparr>)"

text \<open>
  The row objects are shared: \<open>rawData\<close>, \<open>filteredRawData\<close>, \<open>sorted\<close> and \<open>paged\<close> are
  arrays of references to the same objects, and the loop over \<open>paged\<close> assigns to them.
  So the objects live in a store, the list of the rows in the order they were pushed,
  and an array of rows is a list of addresses, that is of positions in the store. Every
  address comes from \<open>[0..<length st]\<close>, so every read \<open>st ! g\<close> is inside the store.
\<close>

type_synonym store = "WorkloadGroupData list"
type_synonym ref = nat

text \<open>The search filter: \<open>g.name.toLowerCase()\<close> throws a \<open>TypeError\<close> on a row whose name
  is \<open>undefined\<close>, which ends \<open>filter\<close> at that row.\<close>

definition matchesSearch :: "runtime \<Rightarrow> string \<Rightarrow> WorkloadGroupData \<Rightarrow> error + bool" where
  "matchesSearch rt query g =
     (case name g of
        None \<Rightarrow> Inl TypeError
      | Some n \<Rightarrow> Inr (string_includes (toLowerCase rt n) (toLowerCase rt query)))"

fun array_filter :: "('a \<Rightarrow> error + bool) \<Rightarrow> 'a list \<Rightarrow> error + 'a list" where
  "array_filter p [] = Inr []"
| "array_filter p (x # xs) =
     (case p x of
        Inl err \<Rightarrow> Inl err
      | Inr keep \<Rightarrow>
          (case array_filter p xs of
             Inl err \<Rightarrow> Inl err
           | Inr ys \<Rightarrow> Inr (if keep then x # ys else ys)))"

text \<open>\<open>sortData\<close>: a sorted copy of the array; numeric columns compare by the sign of the
  difference, the name column by \<open>localeCompare\<close> of \<open>String(name)\<close>. \<open>numericField\<close> is
  read for the numeric columns only.\<close>

fun numericField :: "SortField \<Rightarrow> WorkloadGroupData \<Rightarrow> number" where
  "numericField By_cpuUsage g = cpuUsage g"
| "numericField By_memoryUsage g = memoryUsage g"
| "numericField By_totalCompletions g = Num (real_of_int (totalCompletions g))"
| "numericField By_totalRejections g = Num (real_of_int (totalRejections g))"
| "numericField By_totalCancellations g = Num (real_of_int (totalCancellations g))"
| "numericField By_name g = NaN"

definition compareRows ::
  "runtime \<Rightarrow> SortField \<Rightarrow> SortDirection \<Rightarrow> WorkloadGroupData \<Rightarrow> WorkloadGroupData \<Rightarrow> number"
where
  "compareRows rt field direction a b =
     (if field \<noteq> By_name then
        (if direction = ASC then num_minus (numericField field a) (numericField field b)
         else num_minus (numericField field b) (numericField field a))
      else
        (if direction = ASC then localeCompare rt (String_of (name a)) (String_of (name b))
         else localeCompare rt (String_of (name b)) (String_of (name a))))"

definition sortData ::
  "runtime \<Rightarrow> store \<Rightarrow> ref list \<Rightarrow> SortField \<Rightarrow> SortDirection \<Rightarrow> ref list" where
  "sortData rt st rawData field direction =
     array_sort (\<lambda>a b. compareRows rt field direction (st ! a) (st ! b)) rawData"

text \<open>The page of the table: \<open>rows.slice(pageIndex * pageSize, (pageIndex + 1) * pageSize)\<close>.\<close>

definition paginate :: "'a list \<Rightarrow> int \<Rightarrow> int \<Rightarrow> 'a list" where
  "paginate rows pIndex pSize = array_slice rows (pIndex * pSize) ((pIndex + 1) * pSize)"

text \<open>
  The detail request of one visible group: the usages of the group on every node of the
  body, the keys \<open>_nodes\<close> and \<open>cluster_name\<close> skipped, go through \<open>computeBoxStats\<close> into the
  row; a failed request is caught and logged, and the row is left as it is.
\<close>

definition nodeEntries :: "string \<Rightarrow> (string \<times> NodeStats) list \<Rightarrow> GroupStats list" where
  "nodeEntries gid stats =
     List.map_filter
       (\<lambda>entry. if fst entry = ''_nodes'' \<or> fst entry = ''cluster_name'' then None
                else Option.bind (workload_groups (snd entry)) (\<lambda>groups. groups gid))
       stats"

definition usageTimes100 :: "runtime \<Rightarrow> Usage option \<Rightarrow> number" where
  "usageTimes100 rt u = num_times rt (nullish (Option.bind u current_usage) (Num 0)) (Num 100)"

definition fetchBoxStats :: "runtime \<Rightarrow> backend \<Rightarrow> store \<Rightarrow> ref \<Rightarrow> store" where
  "fetchBoxStats rt be st g =
     (case statsResponse be (groupId (st ! g)) of
        Inl err \<Rightarrow> st
      | Inr stats \<Rightarrow>
          (let nodes = nodeEntries (groupId (st ! g)) stats;
               cpuUsages = map (\<lambda>nodeStats. usageTimes100 rt (gs_cpu nodeStats)) nodes;
               memUsages = map (\<lambda>nodeStats. usageTimes100 rt (gs_memory nodeStats)) nodes
           in st[g := (st ! g)\<lparr>cpuStats := computeBoxStats cpuUsages,
                                         memStats := computeBoxStats memUsages\<rparr>]))"

text \<open>A row exceeds its limits when \<open>g.cpuUsage > g.cpuLimit || g.memoryUsage > g.memLimit\<close>.\<close>

definition exceedsLimits :: "WorkloadGroupData \<Rightarrow> bool" where
  "exceedsLimits g = (num_gt (cpuUsage g) (cpuLimit g) \<or> num_gt (memoryUsage g) (memLimit g))"

text \<open>
  \<open>fetchStatsForNode\<close>. An error that reaches the outer \<open>catch\<close> (the first two requests,
  the search filter) is logged and nothing is set: the result is \<open>Inl\<close>. Otherwise the
  result holds what \<open>setData\<close> and \<open>setSummaryStats\<close> receive.
\<close>

definition fetchStatsForNode :: "runtime \<Rightarrow> backend \<Rightarrow> view \<Rightarrow> string \<Rightarrow> error + cycle_result" where
  "fetchStatsForNode rt be v nodeId =
     (case fetchWorkloadGroupNameMap be of
        Inl err \<Rightarrow> Inl err
      | Inr idToName \<Rightarrow>
     (case nodeStatsResponse be nodeId of
        Inl err \<Rightarrow> Inl err
      | Inr workloadGroups \<Rightarrow>
     (let groupIdToLimits = fetchWorkloadGroupsWithLimits rt be;
          st = map (rawDataRow rt idToName groupIdToLimits) workloadGroups;
          rawData = [0..<length st]
      in
     (case (if searchQuery v \<noteq> []
            then array_filter (\<lambda>g. matchesSearch rt (searchQuery v) (st ! g)) rawData
            else Inr rawData) of
        Inl err \<Rightarrow> Inl err
      | Inr filteredRawData \<Rightarrow>
     (let sorted = sortData rt st filteredRawData (sortField v) (sortDirection v);
          paged = paginate sorted (pageIndex v) (pageSize v);
          st' = foldl (fetchBoxStats rt be) st paged;
          overLimit = length (filter (\<lambda>g. exceedsLimits (st' ! g)) filteredRawData)
      in Inr \<lparr>data = map (\<lambda>g. st' ! g) sorted,
              summaryStats =
                \<lparr>totalGroups = length sorted,
                 totalCompletionsSum =
                   foldl (\<lambda>sum g. sum + totalCompletions (st' ! g)) 0 filteredRawData,
                 totalRejectionsSum =
                   foldl (\<lambda>sum g. sum + totalRejections (st' ! g)) 0 filteredRawData,
                 totalCancellationsSum =
                   foldl (\<lambda>sum g. sum + totalCancellations (st' ! g)) 0 filteredRawData,
                 groupsExceedingLimits = overLimit\<rparr>\<rparr>)))))"

section \<open>The polling effect\<close>

text \<open>
  The component polls through
  \<open>useEffect(() => { const intervalId = setInterval(() => { if (selectedNode)
  fetchStatsForNode(selectedNode); }, 60000); return () => clearInterval(intervalId); },
  [selectedNode])\<close>.
  The state of the model holds the selected node, the intervals that are active (each
  with the \<open>selectedNode\<close> its callback closed over), the next interval id of the
  browser, the interval id that the cleanup of the last effect clears, and the calls of
  \<open>setInterval\<close> and \<open>clearInterval\<close> made so far, in the order they were made. React runs
  the effect after the first render and after every render in which \<open>selectedNode\<close> has
  changed, the cleanup of the previous effect first; setting the state to the value it has
  renders nothing.
\<close>

datatype timer_call = SetInterval nat string | ClearInterval nat

record polling =
  selectedNode :: string
  intervals :: "(nat \<times> string) list"
  nextIntervalId :: nat
  effectCleanup :: "nat option"
  timerCalls :: "timer_call list"

definition setInterval :: "string \<Rightarrow> polling \<Rightarrow> nat \<times> polling" where
  "setInterval captured p =
     (nextIntervalId p,
      p\<lparr>intervals := intervals p @ [(nextIntervalId p, captured)],
        nextIntervalId := Suc (nextIntervalId p),
        timerCalls := timerCalls p @ [SetInterval (nextIntervalId p) captured]\<rparr>)"

definition clearInterval :: "nat \<Rightarrow> polling \<Rightarrow> polling" where
  "clearInterval intervalId p =
     p\<lparr>intervals := filter (\<lambda>entry. fst entry \<noteq> intervalId) (intervals p),
       timerCalls := timerCalls p @ [ClearInterval intervalId]\<rparr>"

definition runEffect :: "polling \<Rightarrow> polling" where
  "runEffect p =
     (let started = setInterval (selectedNode p) p
      in (snd started)\<lparr>effectCleanup := Some (fst started)\<rparr>)"

definition runCleanup :: "polling \<Rightarrow> polling" where
  "runCleanup p =
     (case effectCleanup p of
        None \<Rightarrow> p
      | Some intervalId \<Rightarrow> (clearInterval intervalId p)\<lparr>effectCleanup := None\<rparr>)"

text \<open>The first render, with \<open>selectedNode = ''\<close>, in a browser whose next interval id is
  \<open>firstId\<close>; a change of the selected node; the end of the component.\<close>

definition mount :: "nat \<Rightarrow> polling" where
  "mount firstId =
     runEffect \<lparr>selectedNode = '''', intervals = [], nextIntervalId = firstId,
                effectCleanup = None, timerCalls = []\<rparr>"

definition setSelectedNode :: "string \<Rightarrow> polling \<Rightarrow> polling" where
  "setSelectedNode nodeId p =
     (if nodeId = selectedNode p then p
      else runEffect ((runCleanup p)\<lparr>selectedNode := nodeId\<rparr>))"

definition unmount :: "polling \<Rightarrow> polling" where
  "unmount p = runCleanup p"

text \<open>One interval of 60000 ms passes: every active interval runs its callback once, which
  calls \<open>fetchStatsForNode\<close> for the node it closed over when that is not the empty
  string. The result lists the nodes fetched.\<close>

definition tick :: "polling \<Rightarrow> string list" where
  "tick p = map snd (filter (\<lambda>entry. snd entry \<noteq> []) (intervals p))"

text \<open>
  What a sequence of timer calls does to the browser's active intervals, taken by
  itself: \<open>replay\<close> is the effect of one call, \<open>activeAfter\<close> the intervals active after
  all the calls, starting from \<open>active\<close>, and \<open>maxActive\<close> the largest number of intervals
  active at any moment, before, between and after the calls.
\<close>

fun replay :: "(nat \<times> string) list \<Rightarrow> timer_call \<Rightarrow> (nat \<times> string) list" where
  "replay active (SetInterval intervalId captured) = active @ [(intervalId, captured)]"
| "replay active (ClearInterval intervalId) =
     filter (\<lambda>entry. fst entry \<noteq> intervalId) active"

definition activeAfter :: "(nat \<times> string) list \<Rightarrow> timer_call list \<Rightarrow> (nat \<times> string) list" where
  "activeAfter active calls = foldl replay active calls"

fun maxActive :: "(nat \<times> string) list \<Rightarrow> timer_call list \<Rightarrow> nat" where
  "maxActive active [] = length active"
| "maxActive active (call # calls) = max (length active) (maxActive (replay active call) calls)"

section \<open>A runtime and a backend for the examples\<close>

text \<open>
  The concrete instances below run with these primitives, which agree with JavaScript on
  the inputs used: ASCII names, and binary fractions whose product with \<open>100\<close> is exact.
\<close>

definition lower_char :: "char \<Rightarrow> char" where
  "lower_char c =
     (case map_of (zip ''ABCDEFGHIJKLMNOPQRSTUVWXYZ'' ''abcdefghijklmnopqrstuvwxyz'') c of
        None \<Rightarrow> c
      | Some l \<Rightarrow> l)"

fun code_compare :: "string \<Rightarrow> string \<Rightarrow> number" where
  "code_compare [] [] = Num 0"
| "code_compare [] (b # bs) = Num (- 1)"
| "code_compare (a # as) [] = Num 1"
| "code_compare (a # as) (b # bs) =
     (if (of_char a :: nat) < of_char b then Num (- 1)
      else if (of_char b :: nat) < of_char a then Num 1
      else code_compare as bs)"

fun exact_times :: "number \<Rightarrow> number \<Rightarrow> number" where
  "exact_times (Num x) (Num y) = Num (x * y)"
| "exact_times _ _ = NaN"

fun round_half_up :: "number \<Rightarrow> number" where
  "round_half_up (Num x) = Num (of_int \<lfloor>x + 1 / 2\<rfloor>)"
| "round_half_up NaN = NaN"

definition ascii_runtime :: runtime where
  "ascii_runtime =
     \<lparr>toLowerCase = map lower_char, localeCompare = code_compare,
      num_times = exact_times, Math_round = round_half_up\<rparr>"

text \<open>
  Three groups on node \<open>n1\<close>. Group \<open>g2\<close> has a cpu limit of \<open>0\<close>, group \<open>g3\<close> has no limits
  and uses 150 percent cpu. The detail request fails for \<open>g2\<close>; for the other groups it
  reports two nodes after the two metadata keys.
\<close>

definition usage_of :: "real \<Rightarrow> Usage option" where
  "usage_of x = Some \<lparr>current_usage = Some (Num x)\<rparr>"

definition example_groups :: "WorkloadGroup list" where
  "example_groups =
     [\<lparr>wg_id = ''g1'', wg_name = ''alpha'',
       resource_limits = Some \<lparr>cpu = Num 0.5, memory = Num 0.75\<rparr>\<rparr>,
      \<lparr>wg_id = ''g2'', wg_name = ''beta'',
       resource_limits = Some \<lparr>cpu = Num 0, memory = Num 0.75\<rparr>\<rparr>,
      \<lparr>wg_id = ''g3'', wg_name = ''gamma'', resource_limits = None\<rparr>]"

definition example_node_stats :: "(string \<times> GroupStats) list" where
  "example_node_stats =
     [(''g1'', \<lparr>total_completions = Some 5, total_rejections = Some 1,
               total_cancellations = Some 0,
               gs_cpu = usage_of 0.5, gs_memory = usage_of 0.25\<rparr>),
      (''g2'', \<lparr>total_completions = Some 7, total_rejections = Some 2,
               total_cancellations = Some 1,
               gs_cpu = usage_of 0.25, gs_memory = usage_of 0.5\<rparr>),
      (''g3'', \<lparr>total_completions = Some 11, total_rejections = Some 0,
               total_cancellations = Some 3,
               gs_cpu = usage_of 1.5, gs_memory = usage_of 0.25\<rparr>)]"

definition example_detail :: "string \<Rightarrow> (string \<times> NodeStats) list" where
  "example_detail gid =
     [(''_nodes'', \<lparr>workload_groups = None\<rparr>),
      (''cluster_name'', \<lparr>workload_groups = None\<rparr>),
      (''n1'', \<lparr>workload_groups =
          Some [gid \<mapsto> \<lparr>total_completions = None, total_rejections = None,
                         total_cancellations = None,
                         gs_cpu = usage_of 0.5, gs_memory = usage_of 0.25\<rparr>]\<rparr>),
      (''n2'', \<lparr>workload_groups =
          Some [gid \<mapsto> \<lparr>total_completions = None, total_rejections = None,
                         total_cancellations = None,
                         gs_cpu = usage_of 0.25, gs_memory = usage_of 0.75\<rparr>]\<rparr>)]"

definition example_backend :: backend where
  "example_backend =
     \<lparr>nameMapResponse = Inr (Some example_groups),
      nodeStatsResponse = (\<lambda>nodeId. Inr example_node_stats),
      limitsResponse = Inr (Some example_groups),
      statsResponse =
        (\<lambda>gid. if gid = ''g2'' then Inl NetworkFailure else Inr (example_detail gid))\<rparr>"

definition example_view :: view where
  "example_view =
     \<lparr>searchQuery = '''', sortField = By_cpuUsage, sortDirection = DESC,
      pageIndex = 0, pageSize = 10\<rparr>"

section \<open>Properties of the sort\<close>

lemma mset_insert_cmp: "mset (insert_cmp c a bs) = add_mset a (mset bs)"
  by (induction bs) auto

lemma mset_array_sort: "mset (array_sort c xs) = mset xs"
  by (induction xs) (auto simp: array_sort_def mset_insert_cmp)

lemma length_array_sort: "length (array_sort c xs) = length xs"
  using mset_array_sort [of c xs] by (metis size_mset)

lemma set_array_sort: "set (array_sort c xs) = set xs"
  using mset_array_sort [of c xs] by (metis set_mset_mset)

lemma insert_cmp_minus_Num:
  "insert_cmp num_minus (Num x) (map Num ys) = map Num (insort x ys)"
  by (induction ys) auto

lemma array_sort_minus_Num: "array_sort num_minus (map Num rs) = map Num (sort rs)"
  by (induction rs) (auto simp: array_sort_def insert_cmp_minus_Num)

lemma floor_mul_quarter: "floor_mul n 0.25 = n div 4"
proof -
  have "real n * 0.25 = real n / real 4" by simp
  then have "\<lfloor>real n * 0.25\<rfloor> = int (n div 4)"
    by (simp only: floor_divide_of_nat_eq)
  then show ?thesis
    unfolding floor_mul_def by (simp only: nat_int)
qed

lemma floor_mul_half: "floor_mul n 0.5 = n div 2"
proof -
  have "real n * 0.5 = real n / real 2" by simp
  then have "\<lfloor>real n * 0.5\<rfloor> = int (n div 2)"
    by (simp only: floor_divide_of_nat_eq)
  then show ?thesis
    unfolding floor_mul_def by (simp only: nat_int)
qed

lemma floor_mul_three_quarters: "floor_mul n 0.75 = (3 * n) div 4"
proof -
  have "real n * 0.75 = real (3 * n) / real 4" by simp
  then have "\<lfloor>real n * 0.75\<rfloor> = int ((3 * n) div 4)"
    by (simp only: floor_divide_of_nat_eq)
  then show ?thesis
    unfolding floor_mul_def by (simp only: nat_int)
qed

lemma box_indices_in_range:
  "0 < n \<Longrightarrow> floor_mul n 0.25 < n \<and> floor_mul n 0.5 < n \<and> floor_mul n 0.75 < n \<and> n - 1 < n"
  unfolding floor_mul_quarter floor_mul_half floor_mul_three_quarters by arith

lemma no_NaN_map_Num: "NaN \<notin> set arr \<Longrightarrow> \<exists>rs. arr = map Num rs"
proof (induction arr)
  case Nil
  then show ?case by simp
next
  case (Cons a arr)
  then obtain rs where rs: "arr = map Num rs" by auto
  from Cons.prems obtain r where "a = Num r" by (cases a) auto
  with rs have "a # arr = map Num (r # rs)" by simp
  then show ?case by (rule exI)
qed

lemma computeBoxStats_nonempty:
  "arr \<noteq> [] \<Longrightarrow> computeBoxStats arr =
     (let s = array_sort num_minus arr; n = length arr in
      [s ! 0, s ! (n div 4), s ! (n div 2), s ! ((3 * n) div 4), s ! (n - 1)])"
  unfolding computeBoxStats_def floor_mul_quarter floor_mul_half floor_mul_three_quarters
  by (simp add: Let_def length_array_sort)

section \<open>Claims about the box-plot statistics\<close>

text \<open>
  C4. \<open>computeBoxStats\<close> applied to the empty sequence returns five values, every one of
  them \<open>NaN\<close>.
\<close>

theorem computeBoxStats_empty: "computeBoxStats [] = [NaN, NaN, NaN, NaN, NaN]"
  by (simp add: computeBoxStats_def)

text \<open>
  C3. For a non-empty sequence, \<open>computeBoxStats\<close> sorts the numbers with the numeric
  comparator and returns the elements of the sorted sequence \<open>s\<close> at the positions \<open>0\<close>,
  \<open>floor(n*0.25)\<close>, \<open>floor(n*0.5)\<close>, \<open>floor(n*0.75)\<close> and \<open>n - 1\<close>, which are \<open>n div 4\<close>,
  \<open>n div 2\<close> and \<open>3 * n div 4\<close> and lie inside the sequence; no value is interpolated.
  \<open>s\<close> is a rearrangement of the input, ascending when the input holds no \<open>NaN\<close>.
\<close>

theorem computeBoxStats_floor_rank:
  assumes "arr \<noteq> []"
  shows "let s = array_sort num_minus arr; n = length arr in
     mset s = mset arr \<and> length s = n
     \<and> n div 4 < n \<and> n div 2 < n \<and> (3 * n) div 4 < n \<and> n - 1 < n
     \<and> (NaN \<notin> set arr \<longrightarrow> sorted_wrt num_le s)
     \<and> computeBoxStats arr = [s ! 0, s ! (n div 4), s ! (n div 2), s ! ((3 * n) div 4), s ! (n - 1)]"
proof -
  define s where "s = array_sort num_minus arr"
  define n where "n = length arr"
  from assms have pos: "0 < n" by (simp add: n_def)
  have perm: "mset s = mset arr" and len: "length s = n"
    by (simp_all add: s_def n_def mset_array_sort length_array_sort)
  from pos have idx: "n div 4 < n" "n div 2 < n" "(3 * n) div 4 < n" "n - 1 < n"
    by arith+
  have asc: "sorted_wrt num_le s" if "NaN \<notin> set arr"
  proof -
    from that obtain rs where "arr = map Num rs" using no_NaN_map_Num by blast
    then have "s = map Num (sort rs)" by (simp add: s_def array_sort_minus_Num)
    moreover have "sorted_wrt (\<lambda>x y. num_le (Num x) (Num y)) (sort rs)"
      using sorted_sort [of rs] by simp
    ultimately show ?thesis by (simp add: sorted_wrt_map)
  qed
  have "computeBoxStats arr = [s ! 0, s ! (n div 4), s ! (n div 2), s ! ((3 * n) div 4), s ! (n - 1)]"
    using computeBoxStats_nonempty [OF assms] by (simp add: Let_def s_def n_def)
  with perm len idx asc show ?thesis by (simp add: Let_def s_def n_def)
qed

theorem computeBoxStats_floor_rank_witness:
  "[Num 10, Num 40, Num 30, Num 20] \<noteq> [] \<and> NaN \<notin> set [Num 10, Num 40, Num 30, Num 20]
   \<and> array_sort num_minus [Num 10, Num 40, Num 30, Num 20] = [Num 10, Num 20, Num 30, Num 40]
   \<and> computeBoxStats [Num 10, Num 40, Num 30, Num 20] = [Num 10, Num 20, Num 30, Num 40, Num 40]"
  using computeBoxStats_floor_rank [of "[Num 10, Num 40, Num 30, Num 20]"]
  by (simp add: array_sort_def Let_def)

text \<open>
  C6. For a non-empty sequence of numbers other than \<open>NaN\<close>, the five values that
  \<open>computeBoxStats\<close> returns are non-decreasing: min \<open>\<le>\<close> Q1 \<open>\<le>\<close> median \<open>\<le>\<close> Q3 \<open>\<le>\<close> max.
\<close>

theorem computeBoxStats_nondecreasing:
  assumes "arr \<noteq> []" and "NaN \<notin> set arr"
  shows "sorted_wrt num_le (computeBoxStats arr)"
proof -
  from assms(2) obtain rs where arr: "arr = map Num rs" using no_NaN_map_Num by blast
  define t where "t = sort rs"
  define n where "n = length rs"
  from assms(1) arr have pos: "0 < n" by (simp add: n_def)
  have len: "length t = n" by (simp add: t_def n_def)
  have mono: "t ! i \<le> t ! j" if "i \<le> j" "j < n" for i j
    using that len sorted_nth_mono [of t i j] by (simp add: t_def)
  from pos have i1: "n div 4 < n" and i2: "n div 2 < n" and i3: "(3 * n) div 4 < n"
    and i4: "n - 1 < n" by arith+
  from pos have o1: "n div 4 \<le> n div 2" and o2: "n div 2 \<le> (3 * n) div 4"
    and o3: "(3 * n) div 4 \<le> n - 1" by arith+
  have s: "array_sort num_minus arr = map Num t"
    by (simp add: arr t_def array_sort_minus_Num)
  have nth: "map Num t ! i = Num (t ! i)" if "i < n" for i
    using that len by simp
  have "computeBoxStats arr =
      [map Num t ! 0, map Num t ! (n div 4), map Num t ! (n div 2),
       map Num t ! ((3 * n) div 4), map Num t ! (n - 1)]"
    using computeBoxStats_nonempty [OF assms(1)] unfolding s Let_def by (simp add: arr n_def)
  then have box: "computeBoxStats arr =
      [Num (t ! 0), Num (t ! (n div 4)), Num (t ! (n div 2)), Num (t ! ((3 * n) div 4)),
       Num (t ! (n - 1))]"
    using nth [OF pos] nth [OF i1] nth [OF i2] nth [OF i3] nth [OF i4] by simp
  have a: "t ! 0 \<le> t ! (n div 4)" using mono [of 0 "n div 4"] i1 by simp
  have b: "t ! (n div 4) \<le> t ! (n div 2)" using mono [OF o1 i2] .
  have c: "t ! (n div 2) \<le> t ! ((3 * n) div 4)" using mono [OF o2 i3] .
  have d: "t ! ((3 * n) div 4) \<le> t ! (n - 1)" using mono [OF o3 i4] .
  from a b c d show ?thesis unfolding box by simp
qed

theorem computeBoxStats_nondecreasing_witness:
  "[Num 7, Num 3, Num 5] \<noteq> [] \<and> NaN \<notin> set [Num 7, Num 3, Num 5]
   \<and> computeBoxStats [Num 7, Num 3, Num 5] = [Num 3, Num 3, Num 5, Num 7, Num 7]
   \<and> sorted_wrt num_le [Num 3, Num 3, Num 5, Num 7, Num 7]"
  using computeBoxStats_nondecreasing [of "[Num 7, Num 3, Num 5]"]
  unfolding computeBoxStats_def floor_mul_quarter floor_mul_half floor_mul_three_quarters
  by (simp add: array_sort_def)


section \<open>Claims about pagination\<close>

lemma array_slice_nonneg:
  assumes "0 \<le> start" and "0 \<le> n"
  shows "array_slice xs start (start + n) = take (nat n) (drop (nat start) xs)"
proof (cases "int (length xs) \<le> start")
  case True
  with assms show ?thesis by (simp add: array_slice_def Let_def)
next
  case lt: False
  show ?thesis
  proof (cases "start + n \<le> int (length xs)")
    case True
    with lt assms show ?thesis by (simp add: array_slice_def Let_def)
  next
    case False
    with assms have "length (drop (nat start) xs) \<le> nat n" by simp
    then have "take (nat n) (drop (nat start) xs) = drop (nat start) xs" by simp
    with False lt assms show ?thesis by (simp add: array_slice_def Let_def)
  qed
qed

text \<open>
  C7. For a zero-based page index and a page size, \<open>paginate\<close> returns exactly the rows at
  the positions from \<open>pageIndex * pageSize\<close> up to, not including,
  \<open>(pageIndex + 1) * pageSize\<close>, as far as the sequence reaches; when the first of these
  positions is at or past the end of the sequence the result is empty, and nothing fails.
  Three rows with page index 5 and page size 10 give the empty page (in the witness).
\<close>

theorem paginate_is_slice:
  assumes "0 \<le> pIndex" and "0 \<le> pSize"
  shows "paginate rows pIndex pSize = take (nat pSize) (drop (nat (pIndex * pSize)) rows)
     \<and> (int (length rows) \<le> pIndex * pSize \<longrightarrow> paginate rows pIndex pSize = [])"
proof -
  from assms have start: "0 \<le> pIndex * pSize" by simp
  have "(pIndex + 1) * pSize = pIndex * pSize + pSize" by (simp add: algebra_simps)
  then have "paginate rows pIndex pSize = take (nat pSize) (drop (nat (pIndex * pSize)) rows)"
    unfolding paginate_def using array_slice_nonneg [OF start assms(2)] by simp
  then show ?thesis by simp
qed

theorem paginate_is_slice_witness:
  "(0::int) \<le> 5 \<and> (0::int) \<le> 10 \<and> paginate [''a'', ''b'', ''c''] 5 10 = []
   \<and> paginate [''a'', ''b'', ''c'', ''d'', ''e''] 1 2 = [''c'', ''d'']"
  using paginate_is_slice [of 5 10 "[''a'', ''b'', ''c'']"]
    paginate_is_slice [of 1 2 "[''a'', ''b'', ''c'', ''d'', ''e'']"]
  by simp



section \<open>Claims about the limits\<close>

lemma foldl_upd_other:
  "k \<notin> key ` set xs \<Longrightarrow> foldl (\<lambda>m x. m(key x \<mapsto> val x)) m0 xs k = m0 k"
  by (induction xs arbitrary: m0) auto

lemma foldl_upd_distinct:
  "distinct (map key xs) \<Longrightarrow> x \<in> set xs \<Longrightarrow>
   foldl (\<lambda>m x. m(key x \<mapsto> val x)) m0 xs (key x) = Some (val x)"
proof (induction xs arbitrary: m0)
  case Nil
  then show ?case by simp
next
  case (Cons y ys)
  show ?case
  proof (cases "x = y")
    case True
    with Cons.prems have "key y \<notin> key ` set ys" by auto
    then have "foldl (\<lambda>m x. m(key x \<mapsto> val x)) (m0(key y \<mapsto> val y)) ys (key y)
        = (m0(key y \<mapsto> val y)) (key y)"
      by (rule foldl_upd_other)
    then have "foldl (\<lambda>m x. m(key x \<mapsto> val x)) m0 (y # ys) (key y) = Some (val y)"
      by (simp only: foldl.simps fun_upd_same)
    with True show ?thesis by (simp only:)
  next
    case False
    with Cons show ?thesis by auto
  qed
qed

text \<open>
  C9. A group whose \<open>resource_limits\<close> has a \<open>cpu\<close> (a \<open>memory\<close>) value of \<open>0\<close> gets the
  limit \<open>NaN\<close> in its row, not \<open>0\<close>: the conversion tests the value's truthiness. The
  conversion of \<open>0\<close> and the conversion of an absent limit give the same \<open>NaN\<close>, so a
  limit of exactly \<open>0\<close> cannot be told from no limit. Group ids are distinct.
\<close>

theorem zero_limit_becomes_NaN:
  assumes "limitsResponse be = Inr (Some groups)"
    and "distinct (map wg_id groups)"
    and "grp \<in> set groups"
    and "resource_limits grp = Some limits"
  shows "(cpu limits = Num 0 \<longrightarrow>
            cpuLimit (rawDataRow rt idToName (fetchWorkloadGroupsWithLimits rt be)
                        (wg_id grp, groupStats)) = NaN)
     \<and> (memory limits = Num 0 \<longrightarrow>
            memLimit (rawDataRow rt idToName (fetchWorkloadGroupsWithLimits rt be)
                        (wg_id grp, groupStats)) = NaN)
     \<and> limitOf rt (Some (Num 0)) = NaN \<and> limitOf rt None = NaN"
proof -
  let ?entry = "\<lambda>g. \<lparr>cpuLimit = limitOf rt (map_option cpu (resource_limits g)),
                      memLimit = limitOf rt (map_option memory (resource_limits g))\<rparr>"
  have "fetchWorkloadGroupsWithLimits rt be (wg_id grp) = Some (?entry grp)"
    using assms(1) foldl_upd_distinct [OF assms(2,3), of ?entry Map.empty]
    by (simp add: fetchWorkloadGroupsWithLimits_def)
  then have row: "cpuLimit (rawDataRow rt idToName (fetchWorkloadGroupsWithLimits rt be)
                        (wg_id grp, groupStats)) = limitOf rt (Some (cpu limits))"
      "memLimit (rawDataRow rt idToName (fetchWorkloadGroupsWithLimits rt be)
                        (wg_id grp, groupStats)) = limitOf rt (Some (memory limits))"
    using assms(4) by (simp_all add: rawDataRow_def Let_def)
  have zero: "limitOf rt (Some (Num 0)) = NaN" and none: "limitOf rt None = NaN"
    by (simp_all add: limitOf_def)
  from row zero none show ?thesis by simp
qed

theorem zero_limit_becomes_NaN_witness:
  "limitsResponse example_backend = Inr (Some example_groups)
   \<and> distinct (map wg_id example_groups)
   \<and> resource_limits (example_groups ! 1) = Some \<lparr>cpu = Num 0, memory = Num 0.75\<rparr>
   \<and> cpuLimit (rawDataRow ascii_runtime Map.empty
                  (fetchWorkloadGroupsWithLimits ascii_runtime example_backend)
                  (example_node_stats ! 1)) = NaN
   \<and> memLimit (rawDataRow ascii_runtime Map.empty
                  (fetchWorkloadGroupsWithLimits ascii_runtime example_backend)
                  (example_node_stats ! 1)) = Num 75"
  using zero_limit_becomes_NaN
    [of example_backend example_groups "example_groups ! 1" "\<lparr>cpu = Num 0, memory = Num 0.75\<rparr>"
        ascii_runtime Map.empty "snd (example_node_stats ! 1)"]
  by (simp add: example_backend_def example_groups_def example_node_stats_def
      fetchWorkloadGroupsWithLimits_def limitOf_def rawDataRow_def ascii_runtime_def Let_def
      usagePct_def usage_of_def)


section \<open>Properties of the refresh cycle\<close>

lemma array_filter_Inr:
  "array_filter p xs = Inr ys \<Longrightarrow> ys = filter (\<lambda>x. p x = Inr True) xs"
proof (induction xs arbitrary: ys)
  case Nil
  then show ?case by simp
next
  case (Cons x xs)
  then show ?case by (auto split: sum.splits if_splits)
qed

lemma foldl_plus_sum_list:
  "foldl (\<lambda>sum g. sum + f g) (a::int) xs = a + sum_list (map f xs)"
  by (induction xs arbitrary: a) auto

lemma filter_refs: "map ((!) st) (filter (\<lambda>a. P (st ! a)) [0..<length st]) = filter P st"
proof -
  have "filter P st = filter P (map ((!) st) [0..<length st])" by (simp add: map_nth)
  also have "\<dots> = map ((!) st) (filter (P \<circ> (!) st) [0..<length st])" by (simp add: filter_map)
  finally show ?thesis by (simp add: comp_def)
qed

lemma length_fetchBoxStats: "length (fetchBoxStats rt be st g) = length st"
  by (simp add: fetchBoxStats_def Let_def split: sum.splits)

lemma fetchBoxStats_nth:
  assumes "a < length st"
  shows "\<exists>c m. fetchBoxStats rt be st g ! a = (st ! a)\<lparr>cpuStats := c, memStats := m\<rparr>"
proof (cases "statsResponse be (groupId (st ! g))")
  case (Inl err)
  then have "fetchBoxStats rt be st g ! a = (st ! a)\<lparr>cpuStats := cpuStats (st ! a), memStats := memStats (st ! a)\<rparr>"
    by (simp add: fetchBoxStats_def)
  then show ?thesis by blast
next
  case (Inr stats)
  show ?thesis
  proof (cases "a = g")
    case True
    with Inr assms show ?thesis by (simp add: fetchBoxStats_def Let_def) blast
  next
    case False
    with Inr have "fetchBoxStats rt be st g ! a = (st ! a)\<lparr>cpuStats := cpuStats (st ! a), memStats := memStats (st ! a)\<rparr>"
      by (simp add: fetchBoxStats_def Let_def)
    then show ?thesis by blast
  qed
qed

lemma foldl_fetchBoxStats_nth:
  "a < length st \<Longrightarrow>
   \<exists>c m. foldl (fetchBoxStats rt be) st gs ! a = (st ! a)\<lparr>cpuStats := c, memStats := m\<rparr>"
proof (induction gs arbitrary: st)
  case Nil
  have "st ! a = (st ! a)\<lparr>cpuStats := cpuStats (st ! a), memStats := memStats (st ! a)\<rparr>" by simp
  then have "foldl (fetchBoxStats rt be) st [] ! a =
      (st ! a)\<lparr>cpuStats := cpuStats (st ! a), memStats := memStats (st ! a)\<rparr>"
    by simp
  then show ?case by (intro exI)
next
  case (Cons g gs)
  let ?st1 = "fetchBoxStats rt be st g"
  from Cons.prems have a1: "a < length ?st1" by (simp add: length_fetchBoxStats)
  from Cons.IH [OF a1] obtain c m where
    1: "foldl (fetchBoxStats rt be) ?st1 gs ! a = (?st1 ! a)\<lparr>cpuStats := c, memStats := m\<rparr>"
    by blast
  from fetchBoxStats_nth [OF Cons.prems] obtain c' m' where
    2: "?st1 ! a = (st ! a)\<lparr>cpuStats := c', memStats := m'\<rparr>" by blast
  from 1 2 have "foldl (fetchBoxStats rt be) st (g # gs) ! a = (st ! a)\<lparr>cpuStats := c, memStats := m\<rparr>"
    by simp
  then show ?case by blast
qed

lemma foldl_fetchBoxStats_failed:
  "a < length st \<Longrightarrow> statsResponse be (groupId (st ! a)) = Inl err \<Longrightarrow>
   foldl (fetchBoxStats rt be) st gs ! a = st ! a"
proof (induction gs arbitrary: st)
  case Nil
  then show ?case by simp
next
  case (Cons g gs)
  let ?st1 = "fetchBoxStats rt be st g"
  have same: "?st1 ! a = st ! a"
  proof (cases "g = a")
    case True
    with Cons.prems show ?thesis by (simp add: fetchBoxStats_def)
  next
    case False
    then show ?thesis by (simp add: fetchBoxStats_def Let_def split: sum.splits)
  qed
  from Cons.prems have "a < length ?st1" by (simp add: length_fetchBoxStats)
  moreover from Cons.prems same have "statsResponse be (groupId (?st1 ! a)) = Inl err" by simp
  ultimately have "foldl (fetchBoxStats rt be) ?st1 gs ! a = ?st1 ! a" by (rule Cons.IH)
  with same show ?case by simp
qed

lemma mset_sortData: "mset (sortData rt st refs field direction) = mset refs"
  by (simp add: sortData_def mset_array_sort)

lemma fetchStatsForNode_InrE:
  assumes "fetchStatsForNode rt be v nodeId = Inr out"
  obtains idToName workloadGroups st filteredRawData sorted st' where
    "fetchWorkloadGroupNameMap be = Inr idToName"
    "nodeStatsResponse be nodeId = Inr workloadGroups"
    "st = map (rawDataRow rt idToName (fetchWorkloadGroupsWithLimits rt be)) workloadGroups"
    "filteredRawData =
       filter (\<lambda>g. searchQuery v = [] \<or> matchesSearch rt (searchQuery v) (st ! g) = Inr True)
         [0..<length st]"
    "sorted = sortData rt st filteredRawData (sortField v) (sortDirection v)"
    "st' = foldl (fetchBoxStats rt be) st (paginate sorted (pageIndex v) (pageSize v))"
    "data out = map (\<lambda>g. st' ! g) sorted"
    "summaryStats out =
       \<lparr>totalGroups = length sorted,
        totalCompletionsSum = foldl (\<lambda>sum g. sum + totalCompletions (st' ! g)) 0 filteredRawData,
        totalRejectionsSum = foldl (\<lambda>sum g. sum + totalRejections (st' ! g)) 0 filteredRawData,
        totalCancellationsSum = foldl (\<lambda>sum g. sum + totalCancellations (st' ! g)) 0 filteredRawData,
        groupsExceedingLimits = length (filter (\<lambda>g. exceedsLimits (st' ! g)) filteredRawData)\<rparr>"
proof -
  from assms obtain idToName where 1: "fetchWorkloadGroupNameMap be = Inr idToName"
    by (auto simp: fetchStatsForNode_def split: sum.splits)
  from assms 1 obtain workloadGroups where 2: "nodeStatsResponse be nodeId = Inr workloadGroups"
    by (auto simp: fetchStatsForNode_def split: sum.splits)
  define st where "st = map (rawDataRow rt idToName (fetchWorkloadGroupsWithLimits rt be)) workloadGroups"
  define res where "res = (if searchQuery v \<noteq> []
            then array_filter (\<lambda>g. matchesSearch rt (searchQuery v) (st ! g)) [0..<length st]
            else Inr [0..<length st])"
  from assms 1 2 obtain fr where 3: "res = Inr fr"
    unfolding fetchStatsForNode_def res_def st_def
    by (simp add: Let_def split: sum.splits)
  have 4: "fr = filter (\<lambda>g. searchQuery v = [] \<or> matchesSearch rt (searchQuery v) (st ! g) = Inr True)
         [0..<length st]"
  proof (cases "searchQuery v = []")
    case True
    with 3 show ?thesis by (simp add: res_def)
  next
    case False
    with 3 have "array_filter (\<lambda>g. matchesSearch rt (searchQuery v) (st ! g)) [0..<length st] = Inr fr"
      by (simp add: res_def)
    from array_filter_Inr [OF this] False show ?thesis by simp
  qed
  define sorted where "sorted = sortData rt st fr (sortField v) (sortDirection v)"
  define st' where "st' = foldl (fetchBoxStats rt be) st (paginate sorted (pageIndex v) (pageSize v))"
  from assms 1 2 3 have out: "out = \<lparr>data = map (\<lambda>g. st' ! g) sorted,
              summaryStats =
                \<lparr>totalGroups = length sorted,
                 totalCompletionsSum = foldl (\<lambda>sum g. sum + totalCompletions (st' ! g)) 0 fr,
                 totalRejectionsSum = foldl (\<lambda>sum g. sum + totalRejections (st' ! g)) 0 fr,
                 totalCancellationsSum = foldl (\<lambda>sum g. sum + totalCancellations (st' ! g)) 0 fr,
                 groupsExceedingLimits = length (filter (\<lambda>g. exceedsLimits (st' ! g)) fr)\<rparr>\<rparr>"
    unfolding fetchStatsForNode_def res_def st_def sorted_def st'_def
    by (simp add: Let_def)
  show thesis
    by (rule that [OF 1 2 st_def 4 sorted_def st'_def]) (simp_all add: out)
qed

lemma loop_keeps:
  fixes rt :: runtime and be :: backend and gs :: "ref list"
  assumes "a < length st"
  defines "st' \<equiv> foldl (fetchBoxStats rt be) st gs"
  shows "totalCompletions (st' ! a) = totalCompletions (st ! a)"
    and "totalRejections (st' ! a) = totalRejections (st ! a)"
    and "totalCancellations (st' ! a) = totalCancellations (st ! a)"
    and "exceedsLimits (st' ! a) = exceedsLimits (st ! a)"
    and "groupId (st' ! a) = groupId (st ! a)"
    and "cpuLimit (st' ! a) = cpuLimit (st ! a)"
    and "memLimit (st' ! a) = memLimit (st ! a)"
    and "cpuUsage (st' ! a) = cpuUsage (st ! a)"
    and "memoryUsage (st' ! a) = memoryUsage (st ! a)"
    and "(st' ! a)\<lparr>cpuStats := [], memStats := []\<rparr> = (st ! a)\<lparr>cpuStats := [], memStats := []\<rparr>"
proof -
  from foldl_fetchBoxStats_nth [OF assms(1), of rt be gs] obtain c m where
    eq: "st' ! a = (st ! a)\<lparr>cpuStats := c, memStats := m\<rparr>" unfolding st'_def by blast
  show "totalCompletions (st' ! a) = totalCompletions (st ! a)" by (simp add: eq)
  show "totalRejections (st' ! a) = totalRejections (st ! a)" by (simp add: eq)
  show "totalCancellations (st' ! a) = totalCancellations (st ! a)" by (simp add: eq)
  show "exceedsLimits (st' ! a) = exceedsLimits (st ! a)" by (simp add: eq exceedsLimits_def)
  show "groupId (st' ! a) = groupId (st ! a)" by (simp add: eq)
  show "cpuLimit (st' ! a) = cpuLimit (st ! a)" by (simp add: eq)
  show "memLimit (st' ! a) = memLimit (st ! a)" by (simp add: eq)
  show "cpuUsage (st' ! a) = cpuUsage (st ! a)" by (simp add: eq)
  show "memoryUsage (st' ! a) = memoryUsage (st ! a)" by (simp add: eq)
  show "(st' ! a)\<lparr>cpuStats := [], memStats := []\<rparr> = (st ! a)\<lparr>cpuStats := [], memStats := []\<rparr>"
    by (simp add: eq)
qed

lemma rawDataRow_no_stats:
  "cpuStats (rawDataRow rt idToName limits entry) = []"
  "memStats (rawDataRow rt idToName limits entry) = []"
  by (simp_all add: rawDataRow_def Let_def)

lemma cycle_shape:
  assumes run: "fetchStatsForNode rt be v nodeId = Inr out"
    and names: "fetchWorkloadGroupNameMap be = Inr idToName"
    and stats: "nodeStatsResponse be nodeId = Inr workloadGroups"
  defines "rows \<equiv> map (rawDataRow rt idToName (fetchWorkloadGroupsWithLimits rt be)) workloadGroups"
  defines "shown \<equiv>
    filter (\<lambda>g. searchQuery v = [] \<or> matchesSearch rt (searchQuery v) g = Inr True) rows"
  shows "map (\<lambda>g. g\<lparr>cpuStats := [], memStats := []\<rparr>) (data out) =
      map ((!) rows)
        (sortData rt rows
          (filter (\<lambda>a. searchQuery v = [] \<or> matchesSearch rt (searchQuery v) (rows ! a) = Inr True)
             [0..<length rows])
          (sortField v) (sortDirection v))"
    and "mset (map (\<lambda>g. g\<lparr>cpuStats := [], memStats := []\<rparr>) (data out)) = mset shown"
    and "totalGroups (summaryStats out) = length shown"
    and "totalCompletionsSum (summaryStats out) = sum_list (map totalCompletions shown)"
    and "totalRejectionsSum (summaryStats out) = sum_list (map totalRejections shown)"
    and "totalCancellationsSum (summaryStats out) = sum_list (map totalCancellations shown)"
    and "groupsExceedingLimits (summaryStats out) = length (filter exceedsLimits shown)"
proof -
  from run obtain idToName' workloadGroups' st fr sorted st' where
    n': "fetchWorkloadGroupNameMap be = Inr idToName'" and
    s': "nodeStatsResponse be nodeId = Inr workloadGroups'" and
    st: "st = map (rawDataRow rt idToName' (fetchWorkloadGroupsWithLimits rt be)) workloadGroups'" and
    fr: "fr = filter (\<lambda>g. searchQuery v = [] \<or> matchesSearch rt (searchQuery v) (st ! g) = Inr True)
         [0..<length st]" and
    sorted: "sorted = sortData rt st fr (sortField v) (sortDirection v)" and
    st': "st' = foldl (fetchBoxStats rt be) st (paginate sorted (pageIndex v) (pageSize v))" and
    data: "data out = map (\<lambda>g. st' ! g) sorted" and
    summary: "summaryStats out =
       \<lparr>totalGroups = length sorted,
        totalCompletionsSum = foldl (\<lambda>sum g. sum + totalCompletions (st' ! g)) 0 fr,
        totalRejectionsSum = foldl (\<lambda>sum g. sum + totalRejections (st' ! g)) 0 fr,
        totalCancellationsSum = foldl (\<lambda>sum g. sum + totalCancellations (st' ! g)) 0 fr,
        groupsExceedingLimits = length (filter (\<lambda>g. exceedsLimits (st' ! g)) fr)\<rparr>"
    by (rule fetchStatsForNode_InrE)
  from n' names s' stats st have rows: "st = rows" by (simp add: rows_def)
  have shown: "map ((!) st) fr = shown"
    unfolding fr shown_def rows [symmetric] by (rule filter_refs)
  have inrange: "a < length st" if "a \<in> set fr" for a using that by (simp add: fr)
  have perm: "mset sorted = mset fr" by (simp add: sorted mset_sortData)
  then have set_sorted: "set sorted = set fr" by (metis set_mset_mset)
  have len: "length sorted = length fr" using perm by (metis size_mset)
  show "totalGroups (summaryStats out) = length shown"
    using len shown by (simp add: summary) (metis length_map)
  have "map (\<lambda>g. totalCompletions (st' ! g)) fr = map totalCompletions shown"
    unfolding shown [symmetric] st' using inrange by (simp add: loop_keeps)
  then show "totalCompletionsSum (summaryStats out) = sum_list (map totalCompletions shown)"
    by (simp add: summary foldl_plus_sum_list)
  have "map (\<lambda>g. totalRejections (st' ! g)) fr = map totalRejections shown"
    unfolding shown [symmetric] st' using inrange by (simp add: loop_keeps)
  then show "totalRejectionsSum (summaryStats out) = sum_list (map totalRejections shown)"
    by (simp add: summary foldl_plus_sum_list)
  have "map (\<lambda>g. totalCancellations (st' ! g)) fr = map totalCancellations shown"
    unfolding shown [symmetric] st' using inrange by (simp add: loop_keeps)
  then show "totalCancellationsSum (summaryStats out) = sum_list (map totalCancellations shown)"
    by (simp add: summary foldl_plus_sum_list)
  have "filter (\<lambda>g. exceedsLimits (st' ! g)) fr = filter (\<lambda>g. exceedsLimits (st ! g)) fr"
    unfolding st' using inrange by (intro filter_cong) (simp_all add: loop_keeps)
  moreover have "filter exceedsLimits shown = map ((!) st) (filter (\<lambda>g. exceedsLimits (st ! g)) fr)"
    unfolding shown [symmetric] by (simp add: filter_map comp_def)
  ultimately show "groupsExceedingLimits (summaryStats out) = length (filter exceedsLimits shown)"
    by (simp add: summary)
  have clear: "(st' ! a)\<lparr>cpuStats := [], memStats := []\<rparr> = st ! a" if "a \<in> set sorted" for a
  proof -
    from that set_sorted have a: "a < length st" using inrange by simp
    then have "(st' ! a)\<lparr>cpuStats := [], memStats := []\<rparr> = (st ! a)\<lparr>cpuStats := [], memStats := []\<rparr>"
      unfolding st' by (rule loop_keeps)
    moreover from a have "cpuStats (st ! a) = []" "memStats (st ! a) = []"
      by (simp_all add: st rawDataRow_no_stats)
    ultimately show ?thesis by simp
  qed
  have cleared: "map (\<lambda>g. g\<lparr>cpuStats := [], memStats := []\<rparr>) (data out) = map ((!) st) sorted"
    unfolding data using clear by simp
  then show "map (\<lambda>g. g\<lparr>cpuStats := [], memStats := []\<rparr>) (data out) =
      map ((!) rows)
        (sortData rt rows
          (filter (\<lambda>a. searchQuery v = [] \<or> matchesSearch rt (searchQuery v) (rows ! a) = Inr True)
             [0..<length rows])
          (sortField v) (sortDirection v))"
    by (simp add: sorted fr rows)
  from cleared have "mset (map (\<lambda>g. g\<lparr>cpuStats := [], memStats := []\<rparr>) (data out)) = image_mset ((!) st) (mset sorted)"
    by simp
  also have "\<dots> = mset (map ((!) st) fr)" by (simp add: perm)
  finally show "mset (map (\<lambda>g. g\<lparr>cpuStats := [], memStats := []\<rparr>) (data out)) = mset shown"
    by (simp add: shown)
qed

lemma stages_ignore_statsResponse:
  "fetchWorkloadGroupNameMap (be\<lparr>statsResponse := f\<rparr>) = fetchWorkloadGroupNameMap be"
  "fetchWorkloadGroupsWithLimits rt (be\<lparr>statsResponse := f\<rparr>) = fetchWorkloadGroupsWithLimits rt be"
  "nodeStatsResponse (be\<lparr>statsResponse := f\<rparr>) = nodeStatsResponse be"
  by (simp_all add: fetchWorkloadGroupNameMap_def fetchWorkloadGroupsWithLimits_def)

lemma fetchStatsForNode_Inr_iff:
  "(\<exists>out. fetchStatsForNode rt be v nodeId = Inr out) \<longleftrightarrow>
   (\<exists>idToName workloadGroups filteredRawData.
      fetchWorkloadGroupNameMap be = Inr idToName \<and>
      nodeStatsResponse be nodeId = Inr workloadGroups \<and>
      (let st = map (rawDataRow rt idToName (fetchWorkloadGroupsWithLimits rt be)) workloadGroups
       in (if searchQuery v \<noteq> []
           then array_filter (\<lambda>g. matchesSearch rt (searchQuery v) (st ! g)) [0..<length st]
           else Inr [0..<length st]) = Inr filteredRawData))"
proof (cases "fetchWorkloadGroupNameMap be")
  case (Inl err)
  then show ?thesis by (simp add: fetchStatsForNode_def)
next
  case names: (Inr idToName)
  show ?thesis
  proof (cases "nodeStatsResponse be nodeId")
    case (Inl err)
    with names show ?thesis by (simp add: fetchStatsForNode_def)
  next
    case stats: (Inr workloadGroups)
    define st where "st = map (rawDataRow rt idToName (fetchWorkloadGroupsWithLimits rt be)) workloadGroups"
    define res where "res = (if searchQuery v \<noteq> []
           then array_filter (\<lambda>g. matchesSearch rt (searchQuery v) (st ! g)) [0..<length st]
           else Inr [0..<length st])"
    show ?thesis
    proof (cases res)
      case (Inl err)
      with names stats show ?thesis
        unfolding fetchStatsForNode_def res_def st_def by (simp add: Let_def)
    next
      case (Inr fr)
      with names stats show ?thesis
        unfolding fetchStatsForNode_def res_def st_def by (simp add: Let_def)
    qed
  qed
qed

lemma statsResponse_irrelevant:
  assumes "fetchStatsForNode rt be v nodeId = Inr out"
  shows "\<exists>out'. fetchStatsForNode rt (be\<lparr>statsResponse := f\<rparr>) v nodeId = Inr out'"
proof -
  from assms have "\<exists>out. fetchStatsForNode rt be v nodeId = Inr out" by blast
  then show ?thesis
    unfolding fetchStatsForNode_Inr_iff stages_ignore_statsResponse .
qed

lemma exceedsLimits_ignores_stats:
  "exceedsLimits (g\<lparr>cpuStats := c, memStats := m\<rparr>) = exceedsLimits g"
  by (simp add: exceedsLimits_def)

lemma count_exceeding_in_data:
  assumes "fetchStatsForNode rt be v nodeId = Inr out"
  shows "groupsExceedingLimits (summaryStats out) = length (filter exceedsLimits (data out))"
proof -
  from assms obtain idToName workloadGroups where
    names: "fetchWorkloadGroupNameMap be = Inr idToName" and
    stats: "nodeStatsResponse be nodeId = Inr workloadGroups"
    by (rule fetchStatsForNode_InrE)
  let ?clear = "\<lambda>g. g\<lparr>cpuStats := [], memStats := []\<rparr>"
  let ?shown = "filter (\<lambda>g. searchQuery v = [] \<or> matchesSearch rt (searchQuery v) g = Inr True)
     (map (rawDataRow rt idToName (fetchWorkloadGroupsWithLimits rt be)) workloadGroups)"
  have "length (filter exceedsLimits (data out)) = length (filter exceedsLimits (map ?clear (data out)))"
    by (simp add: filter_map comp_def exceedsLimits_ignores_stats)
  also have "\<dots> = size (filter_mset exceedsLimits (mset (map ?clear (data out))))"
    by (metis mset_filter size_mset)
  also have "\<dots> = size (filter_mset exceedsLimits (mset ?shown))"
    using cycle_shape(2) [OF assms names stats] by simp
  also have "\<dots> = length (filter exceedsLimits ?shown)"
    by (metis mset_filter size_mset)
  finally show ?thesis
    using cycle_shape(7) [OF assms names stats] by simp
qed

lemma data_row_origin:
  assumes run: "fetchStatsForNode rt be v nodeId = Inr out" and g: "g \<in> set (data out)"
  obtains idToName entry where
    "fetchWorkloadGroupNameMap be = Inr idToName"
    "g\<lparr>cpuStats := [], memStats := []\<rparr> =
       rawDataRow rt idToName (fetchWorkloadGroupsWithLimits rt be) entry"
    "searchQuery v = [] \<or> matchesSearch rt (searchQuery v) (g\<lparr>cpuStats := [], memStats := []\<rparr>) = Inr True"
proof -
  from run obtain idToName workloadGroups where
    names: "fetchWorkloadGroupNameMap be = Inr idToName" and
    stats: "nodeStatsResponse be nodeId = Inr workloadGroups"
    by (rule fetchStatsForNode_InrE)
  let ?clear = "\<lambda>g. g\<lparr>cpuStats := [], memStats := []\<rparr>"
  let ?rows = "map (rawDataRow rt idToName (fetchWorkloadGroupsWithLimits rt be)) workloadGroups"
  let ?shown = "filter (\<lambda>g. searchQuery v = [] \<or> matchesSearch rt (searchQuery v) g = Inr True) ?rows"
  from g have "?clear g \<in> set (map ?clear (data out))" by simp
  also have "set (map ?clear (data out)) = set ?shown"
    using cycle_shape(2) [OF run names stats] by (metis set_mset_mset)
  finally have "?clear g \<in> set ?shown" .
  then obtain entry where "?clear g = rawDataRow rt idToName (fetchWorkloadGroupsWithLimits rt be) entry"
    and "searchQuery v = [] \<or> matchesSearch rt (searchQuery v) (?clear g) = Inr True"
    by auto
  with names show thesis by (rule that)
qed

lemma limits_map_empty_on_failure:
  "limitsResponse be = Inl err \<Longrightarrow> fetchWorkloadGroupsWithLimits rt be gid = None"
  by (simp add: fetchWorkloadGroupsWithLimits_def)


section \<open>Claims about the refresh cycle\<close>

lemmas example_defs = fetchStatsForNode_def fetchWorkloadGroupNameMap_def
  fetchWorkloadGroupsWithLimits_def limitOf_def rawDataRow_def usagePct_def matchesSearch_def
  sortData_def compareRows_def paginate_def array_slice_def array_sort_def nodeEntries_def
  usageTimes100_def fetchBoxStats_def exceedsLimits_def ascii_runtime_def lower_char_def
  usage_of_def example_groups_def example_node_stats_def example_detail_def example_backend_def
  example_view_def List.map_filter_def Let_def

lemma computeBoxStats_two:
  "computeBoxStats [Num x, Num y] =
     (if x \<le> y then [Num x, Num x, Num y, Num y, Num y] else [Num y, Num y, Num x, Num x, Num x])"
  unfolding computeBoxStats_def floor_mul_quarter floor_mul_half floor_mul_three_quarters
  by (simp add: array_sort_def)

text \<open>
  C1 (as amended). In every refresh cycle that completes, the three sums of the summary
  and \<open>totalGroups\<close> are taken over the same rows: the fetched rows that pass the search
  filter. \<open>totalGroups\<close> is their number and \<open>totalCompletions\<close>, \<open>totalRejections\<close> and
  \<open>totalCancellations\<close> are the sums of their counters; with an empty search text these
  are all fetched rows.
\<close>

theorem summary_totals_over_filtered_rows:
  assumes "fetchStatsForNode rt be v nodeId = Inr out"
    and "fetchWorkloadGroupNameMap be = Inr idToName"
    and "nodeStatsResponse be nodeId = Inr workloadGroups"
  shows "let rows = map (rawDataRow rt idToName (fetchWorkloadGroupsWithLimits rt be)) workloadGroups;
             shown = filter (\<lambda>g. searchQuery v = [] \<or> matchesSearch rt (searchQuery v) g = Inr True) rows
         in totalGroups (summaryStats out) = length shown
          \<and> totalCompletionsSum (summaryStats out) = sum_list (map totalCompletions shown)
          \<and> totalRejectionsSum (summaryStats out) = sum_list (map totalRejections shown)
          \<and> totalCancellationsSum (summaryStats out) = sum_list (map totalCancellations shown)"
  using cycle_shape(3-6) [OF assms] by (simp add: Let_def)

text \<open>The cycle of the example with the search text \<open>AL\<close>, which only \<open>alpha\<close> passes.\<close>

theorem summary_totals_over_filtered_rows_witness:
  "map_sum id summaryStats
     (fetchStatsForNode ascii_runtime example_backend (example_view\<lparr>searchQuery := ''AL''\<rparr>) ''n1'')
   = Inr \<lparr>totalGroups = 1, totalCompletionsSum = 5, totalRejectionsSum = 1,
          totalCancellationsSum = 0, groupsExceedingLimits = 0\<rparr>
   \<and> map name
       (filter (\<lambda>g. matchesSearch ascii_runtime ''AL'' g = Inr True)
         (map (rawDataRow ascii_runtime
                 (projr (fetchWorkloadGroupNameMap example_backend))
                 (fetchWorkloadGroupsWithLimits ascii_runtime example_backend))
            example_node_stats))
     = [Some ''alpha'']"
  using summary_totals_over_filtered_rows
    [of ascii_runtime example_backend "example_view\<lparr>searchQuery := ''AL''\<rparr>" "''n1''"
        "projr (fetchStatsForNode ascii_runtime example_backend
                  (example_view\<lparr>searchQuery := ''AL''\<rparr>) ''n1'')"
        "projr (fetchWorkloadGroupNameMap example_backend)" example_node_stats]
  by (simp add: example_defs computeBoxStats_two)

text \<open>
  C1 as stated fails: for the same fetched rows, whose completions sum to 23, the search
  text \<open>al\<close> gives the sums of the row \<open>alpha\<close> alone. The sums depend on the search text.
\<close>

theorem totals_follow_search_text:
  "map_sum id summaryStats
     (fetchStatsForNode ascii_runtime example_backend (example_view\<lparr>searchQuery := ''''\<rparr>) ''n1'')
   = Inr \<lparr>totalGroups = 3, totalCompletionsSum = 23, totalRejectionsSum = 3,
          totalCancellationsSum = 4, groupsExceedingLimits = 0\<rparr>
   \<and> map_sum id summaryStats
     (fetchStatsForNode ascii_runtime example_backend (example_view\<lparr>searchQuery := ''al''\<rparr>) ''n1'')
   = Inr \<lparr>totalGroups = 1, totalCompletionsSum = 5, totalRejectionsSum = 1,
          totalCancellationsSum = 0, groupsExceedingLimits = 0\<rparr>
   \<and> sum_list (map (\<lambda>entry. nullish (total_completions (snd entry)) 0) example_node_stats) = 23"
  by (simp add: example_defs computeBoxStats_two)


text \<open>
  C5. In every refresh cycle that completes, \<open>groupsExceedingLimits\<close> is the number of
  output rows that exceed their limits, and it stays the same when the rows whose
  \<open>cpuLimit\<close> and \<open>memLimit\<close> are both \<open>NaN\<close> are left out: such a row is never counted,
  whatever its \<open>cpuUsage\<close> and \<open>memoryUsage\<close>, since a comparison with \<open>NaN\<close> is false.
\<close>

theorem unset_limits_never_counted:
  assumes "fetchStatsForNode rt be v nodeId = Inr out"
  shows "groupsExceedingLimits (summaryStats out) = length (filter exceedsLimits (data out))
     \<and> groupsExceedingLimits (summaryStats out) =
         length (filter exceedsLimits
                   (filter (\<lambda>g. \<not> (cpuLimit g = NaN \<and> memLimit g = NaN)) (data out)))
     \<and> (\<forall>g cpuUsagePct memoryUsagePct.
           \<not> exceedsLimits (g\<lparr>cpuLimit := NaN, memLimit := NaN, cpuUsage := cpuUsagePct,
                               memoryUsage := memoryUsagePct\<rparr>))"
proof -
  have never: "\<not> exceedsLimits g" if "cpuLimit g = NaN" "memLimit g = NaN" for g
    using that by (cases "cpuUsage g"; cases "memoryUsage g") (simp_all add: exceedsLimits_def)
  have "filter exceedsLimits (filter (\<lambda>g. \<not> (cpuLimit g = NaN \<and> memLimit g = NaN)) (data out))
      = filter exceedsLimits (data out)"
    using never by (auto intro: filter_cong)
  moreover have "\<not> exceedsLimits (g\<lparr>cpuLimit := NaN, memLimit := NaN, cpuUsage := c,
                               memoryUsage := m\<rparr>)" for g c m
    by (rule never) simp_all
  ultimately show ?thesis
    using count_exceeding_in_data [OF assms] by simp
qed

theorem unset_limits_never_counted_witness:
  "map_sum id (map (\<lambda>g. (name g, cpuUsage g, cpuLimit g, memoryUsage g, memLimit g)) \<circ> data)
     (fetchStatsForNode ascii_runtime example_backend example_view ''n1'')
   = Inr [(Some ''gamma'', Num 150, NaN, Num 25, NaN),
          (Some ''alpha'', Num 50, Num 50, Num 25, Num 75),
          (Some ''beta'', Num 25, NaN, Num 50, Num 75)]
   \<and> map_sum id (groupsExceedingLimits \<circ> summaryStats)
     (fetchStatsForNode ascii_runtime example_backend example_view ''n1'') = Inr 0"
  using unset_limits_never_counted
    [of ascii_runtime example_backend example_view "''n1''"
        "projr (fetchStatsForNode ascii_runtime example_backend example_view ''n1'')"]
  by (simp add: example_defs computeBoxStats_two)


text \<open>
  C10 (as amended). A row of the output whose group is absent from the limits map, as
  every group is when the limits request failed (the failure is caught and gives the
  empty map), has \<open>cpuLimit = 100\<close> and \<open>memLimit = 100\<close>, not \<open>NaN\<close>; it exceeds its limits
  exactly when its cpu or memory usage is above 100, and \<open>groupsExceedingLimits\<close> counts
  the output rows that exceed their limits. The output rows are those that pass the
  search filter.
\<close>

theorem absent_limits_default_to_100:
  assumes "fetchStatsForNode rt be v nodeId = Inr out"
    and "g \<in> set (data out)"
    and "fetchWorkloadGroupsWithLimits rt be (groupId g) = None \<or> (\<exists>err. limitsResponse be = Inl err)"
  shows "cpuLimit g = Num 100 \<and> memLimit g = Num 100
     \<and> (exceedsLimits g \<longleftrightarrow> num_gt (cpuUsage g) (Num 100) \<or> num_gt (memoryUsage g) (Num 100))
     \<and> groupsExceedingLimits (summaryStats out) = length (filter exceedsLimits (data out))"
proof -
  from assms(3) have absent: "fetchWorkloadGroupsWithLimits rt be (groupId g) = None"
    using limits_map_empty_on_failure by blast
  from assms(1,2) obtain idToName entry where
    row: "g\<lparr>cpuStats := [], memStats := []\<rparr> =
       rawDataRow rt idToName (fetchWorkloadGroupsWithLimits rt be) entry"
    by (rule data_row_origin)
  have "groupId g = groupId (g\<lparr>cpuStats := [], memStats := []\<rparr>)" by simp
  also have "\<dots> = fst entry" unfolding row by (simp add: rawDataRow_def Let_def)
  finally have gid: "fst entry = groupId g" by simp
  have "cpuLimit g = cpuLimit (g\<lparr>cpuStats := [], memStats := []\<rparr>)" by simp
  also have "\<dots> = Num 100" unfolding row using absent gid by (simp add: rawDataRow_def Let_def)
  finally have c: "cpuLimit g = Num 100" .
  have "memLimit g = memLimit (g\<lparr>cpuStats := [], memStats := []\<rparr>)" by simp
  also have "\<dots> = Num 100" unfolding row using absent gid by (simp add: rawDataRow_def Let_def)
  finally have m: "memLimit g = Num 100" .
  from c m count_exceeding_in_data [OF assms(1)] show ?thesis
    by (simp add: exceedsLimits_def)
qed

theorem absent_limits_default_to_100_witness:
  "map_sum id (map (\<lambda>g. (name g, cpuUsage g, cpuLimit g, memoryUsage g, memLimit g)) \<circ> data)
     (fetchStatsForNode ascii_runtime (example_backend\<lparr>limitsResponse := Inl NetworkFailure\<rparr>)
        example_view ''n1'')
   = Inr [(Some ''gamma'', Num 150, Num 100, Num 25, Num 100),
          (Some ''alpha'', Num 50, Num 100, Num 25, Num 100),
          (Some ''beta'', Num 25, Num 100, Num 50, Num 100)]
   \<and> map_sum id (groupsExceedingLimits \<circ> summaryStats)
     (fetchStatsForNode ascii_runtime (example_backend\<lparr>limitsResponse := Inl NetworkFailure\<rparr>)
        example_view ''n1'') = Inr 1"
  using absent_limits_default_to_100
    [of ascii_runtime "example_backend\<lparr>limitsResponse := Inl NetworkFailure\<rparr>" example_view "''n1''"
        "projr (fetchStatsForNode ascii_runtime
                  (example_backend\<lparr>limitsResponse := Inl NetworkFailure\<rparr>) example_view ''n1'')"
        "hd (data (projr (fetchStatsForNode ascii_runtime
                  (example_backend\<lparr>limitsResponse := Inl NetworkFailure\<rparr>) example_view ''n1'')))"]
  by (simp add: example_defs computeBoxStats_two)

text \<open>
  C10 as stated fails: with the limits request failed, the row of \<open>g3\<close> has the default
  limits and a cpu usage of 150, but under the search text \<open>al\<close> it is filtered out before
  the count, which is \<open>0\<close>.
\<close>

theorem filtered_out_row_is_not_counted:
  "fetchWorkloadGroupsWithLimits ascii_runtime
     (example_backend\<lparr>limitsResponse := Inl NetworkFailure\<rparr>) ''g3'' = None
   \<and> (let row = rawDataRow ascii_runtime (projr (fetchWorkloadGroupNameMap example_backend))
                   (fetchWorkloadGroupsWithLimits ascii_runtime
                      (example_backend\<lparr>limitsResponse := Inl NetworkFailure\<rparr>))
                   (example_node_stats ! 2)
      in (groupId row, cpuUsage row, cpuLimit row, memLimit row))
     = (''g3'', Num 150, Num 100, Num 100)
   \<and> map_sum id (groupsExceedingLimits \<circ> summaryStats)
     (fetchStatsForNode ascii_runtime (example_backend\<lparr>limitsResponse := Inl NetworkFailure\<rparr>)
        (example_view\<lparr>searchQuery := ''al''\<rparr>) ''n1'') = Inr 0"
  by (simp add: example_defs computeBoxStats_two)

text \<open>
  C2 (as amended). A failed detail request does not abort the cycle. A row whose detail
  request failed keeps the empty arrays it was created with, \<open>cpuStats = []\<close> and
  \<open>memStats = []\<close>. Whatever the detail requests answer, a cycle that completes with one
  set of answers completes with any other, with the same rows in the same order (up to
  their box-plot statistics) and the same summary. The rows of the output, their
  statistics set aside, are exactly the fetched rows that pass the search filter.
\<close>

theorem failed_detail_fetch_leaves_row:
  assumes "fetchStatsForNode rt be v nodeId = Inr out"
  shows "(\<forall>g \<in> set (data out).
            (\<exists>err. statsResponse be (groupId g) = Inl err) \<longrightarrow> cpuStats g = [] \<and> memStats g = [])
     \<and> (\<forall>answers. \<exists>out'.
            fetchStatsForNode rt (be\<lparr>statsResponse := answers\<rparr>) v nodeId = Inr out'
            \<and> map (\<lambda>g. g\<lparr>cpuStats := [], memStats := []\<rparr>) (data out')
              = map (\<lambda>g. g\<lparr>cpuStats := [], memStats := []\<rparr>) (data out)
            \<and> summaryStats out' = summaryStats out)
     \<and> (\<forall>idToName workloadGroups.
            fetchWorkloadGroupNameMap be = Inr idToName \<longrightarrow>
            nodeStatsResponse be nodeId = Inr workloadGroups \<longrightarrow>
            mset (map (\<lambda>g. g\<lparr>cpuStats := [], memStats := []\<rparr>) (data out))
              = mset (filter
                  (\<lambda>g. searchQuery v = [] \<or> matchesSearch rt (searchQuery v) g = Inr True)
                  (map (rawDataRow rt idToName (fetchWorkloadGroupsWithLimits rt be))
                     workloadGroups)))"
proof -
  have untouched: "cpuStats g = [] \<and> memStats g = []"
    if g: "g \<in> set (data out)" and failed: "\<exists>err. statsResponse be (groupId g) = Inl err" for g
  proof -
    from assms obtain idToName workloadGroups st fr sorted st' where
      "fetchWorkloadGroupNameMap be = Inr idToName" and
      "nodeStatsResponse be nodeId = Inr workloadGroups" and
      st: "st = map (rawDataRow rt idToName (fetchWorkloadGroupsWithLimits rt be)) workloadGroups" and
      fr: "fr = filter (\<lambda>g. searchQuery v = [] \<or> matchesSearch rt (searchQuery v) (st ! g) = Inr True)
           [0..<length st]" and
      sorted: "sorted = sortData rt st fr (sortField v) (sortDirection v)" and
      st': "st' = foldl (fetchBoxStats rt be) st (paginate sorted (pageIndex v) (pageSize v))" and
      data: "data out = map (\<lambda>g. st' ! g) sorted" and
      "summaryStats out =
         \<lparr>totalGroups = length sorted,
          totalCompletionsSum = foldl (\<lambda>sum g. sum + totalCompletions (st' ! g)) 0 fr,
          totalRejectionsSum = foldl (\<lambda>sum g. sum + totalRejections (st' ! g)) 0 fr,
          totalCancellationsSum = foldl (\<lambda>sum g. sum + totalCancellations (st' ! g)) 0 fr,
          groupsExceedingLimits = length (filter (\<lambda>g. exceedsLimits (st' ! g)) fr)\<rparr>"
      by (rule fetchStatsForNode_InrE)
    from g data obtain a where a: "a \<in> set sorted" and ga: "g = st' ! a" by auto
    have "set sorted = set fr" using mset_sortData [of rt st fr "sortField v" "sortDirection v"]
      unfolding sorted by (metis set_mset_mset)
    with a have range: "a < length st" by (simp add: fr)
    have "groupId (st' ! a) = groupId (st ! a)" unfolding st' using range by (rule loop_keeps)
    with failed ga obtain err where "statsResponse be (groupId (st ! a)) = Inl err" by auto
    with range have "st' ! a = st ! a" unfolding st' by (rule foldl_fetchBoxStats_failed)
    with ga range show "cpuStats g = [] \<and> memStats g = []"
      by (simp add: st rawDataRow_no_stats)
  qed
  have completes: "\<exists>out'. fetchStatsForNode rt (be\<lparr>statsResponse := answers\<rparr>) v nodeId = Inr out'
            \<and> map (\<lambda>g. g\<lparr>cpuStats := [], memStats := []\<rparr>) (data out')
              = map (\<lambda>g. g\<lparr>cpuStats := [], memStats := []\<rparr>) (data out)
            \<and> summaryStats out' = summaryStats out" for answers
  proof -
    let ?be = "be\<lparr>statsResponse := answers\<rparr>"
    from statsResponse_irrelevant [OF assms] obtain out' where
      run': "fetchStatsForNode rt ?be v nodeId = Inr out'" by blast
    from assms obtain idToName workloadGroups where
      names: "fetchWorkloadGroupNameMap be = Inr idToName" and
      stats: "nodeStatsResponse be nodeId = Inr workloadGroups"
      by (rule fetchStatsForNode_InrE)
    have names': "fetchWorkloadGroupNameMap ?be = Inr idToName"
      and stats': "nodeStatsResponse ?be nodeId = Inr workloadGroups"
      using names stats by (simp_all add: stages_ignore_statsResponse)
    note a = cycle_shape [OF assms names stats]
    note b = cycle_shape [OF run' names' stats', unfolded stages_ignore_statsResponse]
    have "map (\<lambda>g. g\<lparr>cpuStats := [], memStats := []\<rparr>) (data out')
        = map (\<lambda>g. g\<lparr>cpuStats := [], memStats := []\<rparr>) (data out)"
      using a(1) b(1) by (simp add: stages_ignore_statsResponse)
    moreover have "summaryStats out' = summaryStats out"
      using a(3-7) b(3-7) by (intro SummaryStats.equality) simp_all
    ultimately show "\<exists>out'. fetchStatsForNode rt ?be v nodeId = Inr out'
            \<and> map (\<lambda>g. g\<lparr>cpuStats := [], memStats := []\<rparr>) (data out')
              = map (\<lambda>g. g\<lparr>cpuStats := [], memStats := []\<rparr>) (data out)
            \<and> summaryStats out' = summaryStats out"
      using run' by blast
  qed
  have present: "mset (map (\<lambda>g. g\<lparr>cpuStats := [], memStats := []\<rparr>) (data out))
      = mset (filter (\<lambda>g. searchQuery v = [] \<or> matchesSearch rt (searchQuery v) g = Inr True)
                (map (rawDataRow rt idToName (fetchWorkloadGroupsWithLimits rt be)) workloadGroups))"
    if "fetchWorkloadGroupNameMap be = Inr idToName"
      and "nodeStatsResponse be nodeId = Inr workloadGroups" for idToName workloadGroups
    using cycle_shape(2) [OF assms that] .
  from untouched completes present show ?thesis by blast
qed

text \<open>In the example the detail request of \<open>g2\<close> fails; all three rows are in the output.\<close>

theorem failed_detail_fetch_leaves_row_witness:
  "statsResponse example_backend ''g2'' = Inl NetworkFailure
   \<and> map_sum id (map (\<lambda>g. (groupId g, cpuStats g, memStats g)) \<circ> data)
       (fetchStatsForNode ascii_runtime example_backend example_view ''n1'')
     = Inr [(''g3'', [Num 25, Num 25, Num 50, Num 50, Num 50], [Num 25, Num 25, Num 75, Num 75, Num 75]),
            (''g1'', [Num 25, Num 25, Num 50, Num 50, Num 50], [Num 25, Num 25, Num 75, Num 75, Num 75]),
            (''g2'', [], [])]"
  using failed_detail_fetch_leaves_row
    [of ascii_runtime example_backend example_view "''n1''"
        "projr (fetchStatsForNode ascii_runtime example_backend example_view ''n1'')",
      THEN conjunct1]
  by (simp add: example_defs computeBoxStats_two)

text \<open>
  C2 as stated fails: the row of \<open>g2\<close>, whose detail request failed, does not hold the
  five-\<open>NaN\<close> sentinel (nor does any other row).
\<close>

theorem failed_detail_fetch_is_not_NaN_sentinel:
  "statsResponse example_backend ''g2'' = Inl NetworkFailure
   \<and> map_sum id
       (map (\<lambda>g. (groupId g, cpuStats g = [NaN, NaN, NaN, NaN, NaN],
                   memStats g = [NaN, NaN, NaN, NaN, NaN])) \<circ> data)
       (fetchStatsForNode ascii_runtime example_backend example_view ''n1'')
     = Inr [(''g3'', False, False), (''g1'', False, False), (''g2'', False, False)]"
  by (simp add: example_defs computeBoxStats_two)

section \<open>Claims about polling\<close>

lemma maxActive_append:
  "maxActive active (xs @ ys) = max (maxActive active xs) (maxActive (activeAfter active xs) ys)"
proof (induction xs arbitrary: active)
  case Nil
  show ?case by (cases ys) (simp_all add: activeAfter_def)
next
  case (Cons x xs)
  then show ?case by (simp add: activeAfter_def max.assoc)
qed

lemma activeAfter_append:
  "activeAfter active (xs @ ys) = activeAfter (activeAfter active xs) ys"
  by (simp add: activeAfter_def)

text \<open>Two intervals set before the first is cleared count as two.\<close>

lemma maxActive_counts_overlap:
  "maxActive [] [SetInterval 1 ''n1'', SetInterval 2 ''n2'', ClearInterval 1] = 2"
  by simp

lemma mount_invariant:
  "intervals (mount firstId) = [(firstId, selectedNode (mount firstId))]"
  "effectCleanup (mount firstId) = Some firstId"
  "timerCalls (mount firstId) = [SetInterval firstId (selectedNode (mount firstId))]"
  by (simp_all add: mount_def runEffect_def setInterval_def Let_def)

lemma switch_step:
  assumes "intervals p = [(i, selectedNode p)]" and "effectCleanup p = Some i"
    and "nodeId \<noteq> selectedNode p"
  shows "intervals (setSelectedNode nodeId p) = [(nextIntervalId p, nodeId)]"
    and "effectCleanup (setSelectedNode nodeId p) = Some (nextIntervalId p)"
    and "selectedNode (setSelectedNode nodeId p) = nodeId"
    and "timerCalls (setSelectedNode nodeId p) =
           timerCalls p @ [ClearInterval i, SetInterval (nextIntervalId p) nodeId]"
  using assms
  by (simp_all add: setSelectedNode_def runEffect_def runCleanup_def setInterval_def
      clearInterval_def Let_def)

lemma switch_keeps_log:
  assumes "intervals p = [(i, selectedNode p)]" and "effectCleanup p = Some i"
    and "activeAfter [] (timerCalls p) = intervals p"
    and "maxActive [] (timerCalls p) \<le> 1"
  shows "activeAfter [] (timerCalls (setSelectedNode nodeId p)) = intervals (setSelectedNode nodeId p)"
    and "maxActive [] (timerCalls (setSelectedNode nodeId p)) \<le> 1"
proof -
  show "activeAfter [] (timerCalls (setSelectedNode nodeId p)) = intervals (setSelectedNode nodeId p)"
  proof (cases "nodeId = selectedNode p")
    case True
    with assms(3) show ?thesis by (simp add: setSelectedNode_def)
  next
    case False
    note step = switch_step [OF assms(1,2) False]
    have "activeAfter [] (timerCalls (setSelectedNode nodeId p))
        = activeAfter (intervals p) [ClearInterval i, SetInterval (nextIntervalId p) nodeId]"
      unfolding step(4) activeAfter_append assms(3) ..
    also have "\<dots> = [(nextIntervalId p, nodeId)]"
      by (simp add: activeAfter_def assms(1))
    finally show ?thesis by (simp add: step(1))
  qed
  show "maxActive [] (timerCalls (setSelectedNode nodeId p)) \<le> 1"
  proof (cases "nodeId = selectedNode p")
    case True
    with assms(4) show ?thesis by (simp add: setSelectedNode_def)
  next
    case False
    note step = switch_step [OF assms(1,2) False]
    have "maxActive (intervals p) [ClearInterval i, SetInterval (nextIntervalId p) nodeId] = 1"
      by (simp add: assms(1))
    with assms(4) show ?thesis
      unfolding step(4) maxActive_append assms(3) by simp
  qed
qed

lemma reachable_invariant:
  "\<exists>i. intervals (foldl (\<lambda>p nodeId. setSelectedNode nodeId p) (mount firstId) changes)
        = [(i, selectedNode (foldl (\<lambda>p nodeId. setSelectedNode nodeId p) (mount firstId) changes))]
     \<and> effectCleanup (foldl (\<lambda>p nodeId. setSelectedNode nodeId p) (mount firstId) changes) = Some i
     \<and> activeAfter [] (timerCalls (foldl (\<lambda>p nodeId. setSelectedNode nodeId p) (mount firstId) changes))
        = intervals (foldl (\<lambda>p nodeId. setSelectedNode nodeId p) (mount firstId) changes)
     \<and> maxActive [] (timerCalls (foldl (\<lambda>p nodeId. setSelectedNode nodeId p) (mount firstId) changes)) \<le> 1"
proof (induction changes rule: rev_induct)
  case Nil
  show ?case by (simp add: mount_invariant activeAfter_def)
next
  case (snoc nodeId changes)
  define p where "p = foldl (\<lambda>p nodeId. setSelectedNode nodeId p) (mount firstId) changes"
  from snoc obtain i where inv: "intervals p = [(i, selectedNode p)]" "effectCleanup p = Some i"
    "activeAfter [] (timerCalls p) = intervals p" "maxActive [] (timerCalls p) \<le> 1"
    unfolding p_def by blast
  have "\<exists>j. intervals (setSelectedNode nodeId p) = [(j, selectedNode (setSelectedNode nodeId p))]
      \<and> effectCleanup (setSelectedNode nodeId p) = Some j"
  proof (cases "nodeId = selectedNode p")
    case True
    with inv(1,2) show ?thesis by (simp add: setSelectedNode_def)
  next
    case False
    from switch_step(1-3) [OF inv(1,2) False] show ?thesis by simp
  qed
  with switch_keeps_log [OF inv, of nodeId] show ?case
    by (simp add: p_def)
qed

text \<open>
  C8. At most one polling interval is ever active: after any sequence of changes of the
  selected node, the calls of \<open>setInterval\<close> and \<open>clearInterval\<close> made so far never had
  more than one interval active at any moment, and they leave exactly the one interval
  of the state active. A change to another node makes two timer calls, in this order:
  it clears the interval of the previous node, then it sets the interval of the new
  node. So after a switch to a node, one interval later exactly one periodic fetch has
  run, and it is addressed to that node. The end of the component clears the interval.
  A node is a non-empty id: the callback skips the empty string, which stands for no
  selection.
\<close>

theorem one_interval_for_the_selected_node:
  "let p = foldl (\<lambda>p nodeId. setSelectedNode nodeId p) (mount firstId) changes in
     length (intervals p) = 1
     \<and> activeAfter [] (timerCalls p) = intervals p
     \<and> maxActive [] (timerCalls p) \<le> 1
     \<and> (nodeId \<noteq> selectedNode p \<longrightarrow>
          (\<exists>i. intervals p = [(i, selectedNode p)]
             \<and> timerCalls (setSelectedNode nodeId p) =
                 timerCalls p @ [ClearInterval i, SetInterval (nextIntervalId p) nodeId]))
     \<and> activeAfter [] (timerCalls (setSelectedNode nodeId p)) = intervals (setSelectedNode nodeId p)
     \<and> maxActive [] (timerCalls (setSelectedNode nodeId p)) \<le> 1
     \<and> length (intervals (setSelectedNode nodeId p)) = 1
     \<and> (nodeId \<noteq> [] \<longrightarrow> tick (setSelectedNode nodeId p) = [nodeId])
     \<and> intervals (unmount p) = []
     \<and> maxActive [] (timerCalls (unmount p)) \<le> 1"
proof -
  define p where "p = foldl (\<lambda>p nodeId. setSelectedNode nodeId p) (mount firstId) changes"
  from reachable_invariant [of firstId changes] obtain i where
    inv: "intervals p = [(i, selectedNode p)]" "effectCleanup p = Some i"
      "activeAfter [] (timerCalls p) = intervals p" "maxActive [] (timerCalls p) \<le> 1"
    unfolding p_def by blast
  have "foldl (\<lambda>p nodeId. setSelectedNode nodeId p) (mount firstId) (changes @ [nodeId])
      = setSelectedNode nodeId p" by (simp add: p_def)
  with reachable_invariant [of firstId "changes @ [nodeId]"] obtain j where
    inv': "intervals (setSelectedNode nodeId p) = [(j, selectedNode (setSelectedNode nodeId p))]"
    by auto
  have sel: "selectedNode (setSelectedNode nodeId p) = nodeId"
  proof (cases "nodeId = selectedNode p")
    case True
    then show ?thesis by (simp add: setSelectedNode_def)
  next
    case False
    from switch_step(3) [OF inv(1,2) False] show ?thesis .
  qed
  have one: "length (intervals p) = 1" using inv(1) by simp
  have order: "nodeId \<noteq> selectedNode p \<longrightarrow>
          (\<exists>i. intervals p = [(i, selectedNode p)]
             \<and> timerCalls (setSelectedNode nodeId p) =
                 timerCalls p @ [ClearInterval i, SetInterval (nextIntervalId p) nodeId])"
    using switch_step(4) [OF inv(1,2)] inv(1) by blast
  note log' = switch_keeps_log [OF inv, of nodeId]
  have one': "length (intervals (setSelectedNode nodeId p)) = 1" using inv' by simp
  have fetch: "nodeId \<noteq> [] \<longrightarrow> tick (setSelectedNode nodeId p) = [nodeId]"
    using inv' sel by (simp add: tick_def)
  have calls_end: "timerCalls (unmount p) = timerCalls p @ [ClearInterval i]"
    using inv(2) by (simp add: unmount_def runCleanup_def clearInterval_def)
  have gone: "intervals (unmount p) = []"
    using inv(1,2) by (simp add: unmount_def runCleanup_def clearInterval_def)
  have "maxActive (intervals p) [ClearInterval i] = 1" by (simp add: inv(1))
  then have "max (maxActive [] (timerCalls p)) (maxActive (intervals p) [ClearInterval i]) \<le> 1"
    using inv(4) by (simp only: max.bounded_iff) simp
  then have max_end: "maxActive [] (timerCalls (unmount p)) \<le> 1"
    unfolding calls_end maxActive_append inv(3) .
  from one inv(3,4) order log' one' fetch gone max_end show ?thesis
    unfolding p_def [symmetric] Let_def by simp
qed

theorem one_interval_for_the_selected_node_witness:
  "''n2'' \<noteq> []
   \<and> ''n2'' \<noteq> selectedNode (foldl (\<lambda>p nodeId. setSelectedNode nodeId p) (mount 1) [''n1''])
   \<and> intervals (foldl (\<lambda>p nodeId. setSelectedNode nodeId p) (mount 1) [''n1'']) = [(2, ''n1'')]
   \<and> timerCalls (setSelectedNode ''n2''
        (foldl (\<lambda>p nodeId. setSelectedNode nodeId p) (mount 1) [''n1'']))
      = [SetInterval 1 '''', ClearInterval 1, SetInterval 2 ''n1'', ClearInterval 2,
         SetInterval 3 ''n2'']
   \<and> maxActive [] (timerCalls (setSelectedNode ''n2''
        (foldl (\<lambda>p nodeId. setSelectedNode nodeId p) (mount 1) [''n1'']))) = 1
   \<and> intervals (setSelectedNode ''n2''
        (foldl (\<lambda>p nodeId. setSelectedNode nodeId p) (mount 1) [''n1''])) = [(3, ''n2'')]
   \<and> tick (setSelectedNode ''n2''
        (foldl (\<lambda>p nodeId. setSelectedNode nodeId p) (mount 1) [''n1''])) = [''n2'']"
  using one_interval_for_the_selected_node [of 1 "[''n1'']" "''n2''"]
  by (simp add: mount_def setSelectedNode_def runEffect_def runCleanup_def setInterval_def
      clearInterval_def tick_def unmount_def activeAfter_def Let_def)


end
